theory Spec2Isabelle
  imports Main "HOL-Library.Word" "HOL-Library.Multiset"
begin

section \<open>Values, objects and the heap\<close>

text \<open>
  The library works on JavaScript object graphs.  A value is a primitive or a reference
  to an object of the heap; two references are the same object (\<open>===\<close>) exactly when
  their addresses are equal.  Numbers are modelled as integers (no \<open>NaN\<close>, no
  fractions): no function below does arithmetic on the numbers it traverses.
  A function value is a reference of its own kind (\<open>Fn\<close>): \<open>typeof\<close> tells it from
  an object, and its code is never run by the functions modelled here.  \<open>Native f\<close> is
  the built-in function of the name \<open>f\<close> (\<open>Object.prototype.toString\<close>, ...), which
  the built-in prototypes hold; it lives outside the heap.
\<close>

datatype val =
    Undefined
  | Null
  | Bool bool
  | Num int
  | Str string
  | Sym nat
  | Ref nat
  | Fn nat
  | Native string

datatype jstype = Tundefined | Tobject | Tboolean | Tnumber | Tstring | Tsymbol | Tfunction

fun typeof :: "val \<Rightarrow> jstype" where
  "typeof Undefined = Tundefined"
| "typeof Null = Tobject"
| "typeof (Bool b) = Tboolean"
| "typeof (Num n) = Tnumber"
| "typeof (Str s) = Tstring"
| "typeof (Sym n) = Tsymbol"
| "typeof (Ref a) = Tobject"
| "typeof (Fn a) = Tfunction"
| "typeof (Native f) = Tfunction"

fun truthy :: "val \<Rightarrow> bool" where
  "truthy Undefined = False"
| "truthy Null = False"
| "truthy (Bool b) = b"
| "truthy (Num n) = (n \<noteq> 0)"
| "truthy (Str s) = (s \<noteq> [])"
| "truthy (Sym n) = True"
| "truthy (Ref a) = True"
| "truthy (Fn a) = True"
| "truthy (Native f) = True"

text \<open>
  Property keys.  \<open>Idx i\<close> is the canonical array-index string of \<open>i\<close> (\<open>"0"\<close>,
  \<open>"1"\<close>, ...), \<open>Name s\<close> any other string key, \<open>Symk n\<close> a symbol key.  An array
  index is below \<open>2^32 - 1\<close>; the canonical numeral of a larger number is an ordinary
  key.
\<close>

datatype key = Idx nat | Name string | Symk nat

text \<open>
  A property is a data property (value, enumerable) or an accessor property.  The code
  of getters and setters is outside the model: an accessor records whether it has a
  getter (and the value that getter returns, getters being taken to be pure), whether
  it has a setter (whose call leaves the modelled heap as it is), and its
  enumerability.  Data properties are writable and configurable.  The accessors of
  the built-in prototypes (\<open>size\<close>, \<open>flags\<close>, \<open>__proto__\<close>, ...) have a getter
  whose result depends on the receiver; it is not modelled and reads as \<open>undefined\<close>.
\<close>

datatype property =
    Data val bool
  | Accessor "val option" bool bool

fun enumerable :: "property \<Rightarrow> bool" where
  "enumerable (Data v e) = e"
| "enumerable (Accessor g s e) = e"

text \<open>
  Modelled from the spec: the module \<open>./types\<close> (\<open>Types.getInternalProto\<close>) is not part
  of the sources.  The spec's TypeClassifier gives every object one structural type tag,
  read from the object's own internal structure; the tag stands for the built-in
  prototype that \<open>getInternalProto\<close> returns.  The model keeps that structure in the
  object: \<open>kind\<close> carries the internal slots of the built-in kinds.
\<close>

datatype tag = TGeneric | TArray | TBuffer | TDate | TRegex | TSet | TMap | TWeakSet | TWeakMap

datatype kind =
    KGeneric
  | KArray nat
  | KBuffer "8 word list"
  | KDate int
  | KRegex string string
  | KSet "val list"
  | KMap "(val \<times> val) list"
  | KWeakSet
  | KWeakMap

fun getInternalProto :: "kind \<Rightarrow> tag" where
  "getInternalProto KGeneric = TGeneric"
| "getInternalProto (KArray n) = TArray"
| "getInternalProto (KBuffer bs) = TBuffer"
| "getInternalProto (KDate t) = TDate"
| "getInternalProto (KRegex s f) = TRegex"
| "getInternalProto (KSet vs) = TSet"
| "getInternalProto (KMap es) = TMap"
| "getInternalProto KWeakSet = TWeakSet"
| "getInternalProto KWeakMap = TWeakMap"

text \<open>
  The prototype of an object: none, the built-in prototype of a tag, or an object of
  the heap.
\<close>

datatype protoref = PNull | PBuiltin tag | PObj nat

text \<open>
  The built-in prototypes are not objects of the heap.  Each holds its methods, which
  are native functions, and its accessors, and inherits those of \<open>Object.prototype\<close>;
  all of these properties are not enumerable.  \<open>Array.prototype\<close> is itself an array
  of length 0.
\<close>

definition object_members :: "string list" where
  "object_members =
     [''constructor'', ''__defineGetter__'', ''__defineSetter__'', ''hasOwnProperty'',
      ''__lookupGetter__'', ''__lookupSetter__'', ''isPrototypeOf'', ''propertyIsEnumerable'',
      ''toString'', ''valueOf'', ''toLocaleString'']"

fun tag_name :: "tag \<Rightarrow> string" where
  "tag_name TGeneric = ''Object''"
| "tag_name TArray = ''Array''"
| "tag_name TBuffer = ''Buffer''"
| "tag_name TDate = ''Date''"
| "tag_name TRegex = ''RegExp''"
| "tag_name TSet = ''Set''"
| "tag_name TMap = ''Map''"
| "tag_name TWeakSet = ''WeakSet''"
| "tag_name TWeakMap = ''WeakMap''"

fun own_members :: "tag \<Rightarrow> string list" where
  "own_members TGeneric = object_members"
| "own_members TArray =
     [''constructor'', ''at'', ''concat'', ''copyWithin'', ''fill'', ''find'', ''findIndex'',
      ''findLast'', ''findLastIndex'', ''lastIndexOf'', ''pop'', ''push'', ''reverse'', ''shift'',
      ''unshift'', ''slice'', ''sort'', ''splice'', ''includes'', ''indexOf'', ''join'', ''keys'',
      ''entries'', ''values'', ''forEach'', ''filter'', ''flat'', ''flatMap'', ''map'', ''every'',
      ''some'', ''reduce'', ''reduceRight'', ''toLocaleString'', ''toString'']"
| "own_members TBuffer =
     [''constructor'', ''toString'', ''toLocaleString'', ''toJSON'', ''equals'', ''compare'',
      ''indexOf'', ''lastIndexOf'', ''includes'', ''fill'', ''write'', ''slice'', ''subarray'',
      ''copy'', ''swap16'', ''swap32'', ''swap64'', ''inspect'', ''readUInt8'', ''writeUInt8'',
      ''set'', ''at'', ''entries'', ''keys'', ''values'', ''forEach'', ''map'', ''filter'', ''find'',
      ''findIndex'', ''every'', ''some'', ''reduce'', ''reduceRight'', ''join'', ''reverse'', ''sort'',
      ''copyWithin'']"
| "own_members TDate =
     [''constructor'', ''toString'', ''toDateString'', ''toTimeString'', ''toISOString'',
      ''toUTCString'', ''toGMTString'', ''toJSON'', ''toLocaleString'', ''toLocaleDateString'',
      ''toLocaleTimeString'', ''valueOf'', ''getTime'', ''setTime'', ''getTimezoneOffset'',
      ''getDate'', ''setDate'', ''getDay'', ''getFullYear'', ''setFullYear'', ''getHours'',
      ''setHours'', ''getMilliseconds'', ''setMilliseconds'', ''getMinutes'', ''setMinutes'',
      ''getMonth'', ''setMonth'', ''getSeconds'', ''setSeconds'', ''getYear'', ''setYear'',
      ''getUTCDate'', ''setUTCDate'', ''getUTCDay'', ''getUTCFullYear'', ''setUTCFullYear'',
      ''getUTCHours'', ''setUTCHours'', ''getUTCMilliseconds'', ''setUTCMilliseconds'',
      ''getUTCMinutes'', ''setUTCMinutes'', ''getUTCMonth'', ''setUTCMonth'', ''getUTCSeconds'',
      ''setUTCSeconds'']"
| "own_members TRegex = [''constructor'', ''exec'', ''compile'', ''toString'', ''test'']"
| "own_members TSet =
     [''constructor'', ''has'', ''add'', ''delete'', ''clear'', ''entries'', ''forEach'', ''keys'',
      ''values'']"
| "own_members TMap =
     [''constructor'', ''get'', ''set'', ''has'', ''delete'', ''clear'', ''entries'', ''forEach'',
      ''keys'', ''values'']"
| "own_members TWeakSet = [''constructor'', ''delete'', ''has'', ''add'']"
| "own_members TWeakMap = [''constructor'', ''delete'', ''get'', ''set'', ''has'']"

text \<open>The accessors of a built-in prototype; none of them has a setter.\<close>

fun own_getters :: "tag \<Rightarrow> string list" where
  "own_getters TBuffer = [''buffer'', ''byteLength'', ''byteOffset'', ''length'', ''parent'', ''offset'']"
| "own_getters TRegex =
     [''dotAll'', ''flags'', ''global'', ''hasIndices'', ''ignoreCase'', ''multiline'', ''source'',
      ''sticky'', ''unicode'']"
| "own_getters TSet = [''size'']"
| "own_getters TMap = [''size'']"
| "own_getters t = []"

definition native_member :: "tag \<Rightarrow> string \<Rightarrow> val" where
  "native_member t s =
     (if s = ''constructor'' then Native (tag_name t)
      else Native (tag_name t @ ''.prototype.'' @ s))"

text \<open>The property of the name \<open>s\<close> that an object finds on the built-in prototype of
  the tag \<open>t\<close>, or behind it on \<open>Object.prototype\<close>, whose accessor \<open>__proto__\<close> has a
  setter.\<close>

definition builtin_prop :: "tag \<Rightarrow> key \<Rightarrow> property option" where
  "builtin_prop t k =
     (case k of
        Name s \<Rightarrow>
          if s \<in> set (own_members t) then Some (Data (native_member t s) False)
          else if s \<in> set (own_getters t) then Some (Accessor None False False)
          else if t = TArray \<and> s = ''length'' then Some (Data (Num 0) False)
          else if s \<in> set object_members then Some (Data (native_member TGeneric s) False)
          else if s = ''__proto__'' then Some (Accessor None True False)
          else None
      | _ \<Rightarrow> None)"

record obj =
  kind :: kind
  proto :: protoref
  props :: "(key \<times> property) list"

type_synonym heap = "obj list"

definition empty_obj :: obj where
  "empty_obj = \<lparr>kind = KGeneric, proto = PBuiltin TGeneric, props = []\<rparr>"

text \<open>Addresses outside the heap do not occur in a program state; they read as an
  empty record, so that every function below is total.\<close>

definition deref :: "heap \<Rightarrow> nat \<Rightarrow> obj" where
  "deref h a = (if a < length h then h ! a else empty_obj)"

definition alloc :: "heap \<Rightarrow> obj \<Rightarrow> heap \<times> nat" where
  "alloc h ob = (h @ [ob], length h)"

definition isArray :: "heap \<Rightarrow> val \<Rightarrow> bool" where
  "isArray h v = (case v of Ref a \<Rightarrow> getInternalProto (kind (deref h a)) = TArray | _ \<Rightarrow> False)"

fun array_length :: "obj \<Rightarrow> nat" where
  "array_length ob = (case kind ob of KArray n \<Rightarrow> n | _ \<Rightarrow> 0)"

text \<open>The address of a reference.\<close>

fun addr :: "val \<Rightarrow> nat" where
  "addr (Ref a) = a"
| "addr (Fn a) = a"
| "addr v = 0"

subsection \<open>Reading properties\<close>

text \<open>\<open>Object.getOwnPropertyDescriptor\<close>: the \<open>length\<close> of an array is an own,
  non-enumerable data property.\<close>

definition own_prop :: "obj \<Rightarrow> key \<Rightarrow> property option" where
  "own_prop ob k =
     (case kind ob of
        KArray n \<Rightarrow> if k = Name ''length'' then Some (Data (Num (int n)) False)
                    else map_of (props ob) k
      | _ \<Rightarrow> map_of (props ob) k)"

fun read_prop :: "property \<Rightarrow> val" where
  "read_prop (Data v e) = v"
| "read_prop (Accessor g s e) = (case g of Some v \<Rightarrow> v | None \<Rightarrow> Undefined)"

text \<open>The first property of that name along the prototype chain.  A chain of a heap
  is no longer than the heap.\<close>

fun find_prop :: "nat \<Rightarrow> heap \<Rightarrow> nat \<Rightarrow> key \<Rightarrow> property option" where
  "find_prop 0 h a k = None"
| "find_prop (Suc n) h a k =
     (case own_prop (deref h a) k of
        Some p \<Rightarrow> Some p
      | None \<Rightarrow>
          (case proto (deref h a) of
             PObj p \<Rightarrow> find_prop n h p k
           | PBuiltin t \<Rightarrow> builtin_prop t k
           | PNull \<Rightarrow> None))"

definition obj_get :: "heap \<Rightarrow> nat \<Rightarrow> key \<Rightarrow> val" where
  "obj_get h a k =
     (case find_prop (Suc (length h)) h a k of Some p \<Rightarrow> read_prop p | None \<Rightarrow> Undefined)"

text \<open>\<open>v[k]\<close> for a value \<open>v\<close> that is neither \<open>null\<close> nor \<open>undefined\<close> (the callers
  below test that first).  A string has its characters and its length.  Of a native
  function and of a primitive only the methods that \<open>Object.prototype\<close> provides are
  modelled, not the properties of their own.\<close>

fun js_get :: "heap \<Rightarrow> val \<Rightarrow> key \<Rightarrow> val" where
  "js_get h (Ref a) k = obj_get h a k"
| "js_get h (Fn a) k = obj_get h a k"
| "js_get h (Str s) k =
     (case k of
        Idx i \<Rightarrow> if i < length s then Str [s ! i] else Undefined
      | Name n \<Rightarrow>
          if n = ''length'' then Num (int (length s))
          else (case builtin_prop TGeneric k of Some p \<Rightarrow> read_prop p | None \<Rightarrow> Undefined)
      | Symk n \<Rightarrow> Undefined)"
| "js_get h Undefined k = Undefined"
| "js_get h Null k = Undefined"
| "js_get h v k = (case builtin_prop TGeneric k of Some p \<Rightarrow> read_prop p | None \<Rightarrow> Undefined)"

subsection \<open>Writing properties\<close>

datatype error = AssertError string | TypeError | RangeError

datatype 'a outcome = Returns 'a | Throws error | OutOfFuel

text \<open>Sequencing: what follows a call runs only when the call returns.\<close>

fun then_do :: "'a outcome \<Rightarrow> ('a \<Rightarrow> 'b outcome) \<Rightarrow> 'b outcome" where
  "then_do (Returns x) f = f x"
| "then_do (Throws e) f = Throws e"
| "then_do OutOfFuel f = OutOfFuel"

fun upd_prop :: "(key \<times> property) list \<Rightarrow> key \<Rightarrow> property \<Rightarrow> (key \<times> property) list" where
  "upd_prop [] k p = [(k, p)]"
| "upd_prop ((k', p') # ps) k p = (if k' = k then (k, p) # ps else (k', p') # upd_prop ps k p)"

text \<open>\<open>Object.defineProperty\<close> of a property on an object: an existing property is
  replaced in place, a new one is added last; an array index at or beyond the length
  of an array extends the array.\<close>

definition max_length :: int where
  "max_length = 4294967295"

definition define_own :: "obj \<Rightarrow> key \<Rightarrow> property \<Rightarrow> obj" where
  "define_own ob k p =
     (let ob' = ob\<lparr>props := upd_prop (props ob) k p\<rparr>
      in case (kind ob, k) of
           (KArray n, Idx i) \<Rightarrow> if n \<le> i \<and> int i < max_length then ob'\<lparr>kind := KArray (Suc i)\<rparr> else ob'
         | _ \<Rightarrow> ob')"

text \<open>Assigning the \<open>length\<close> of an array drops the elements at and beyond it.\<close>

fun keep_below :: "nat \<Rightarrow> key \<times> property \<Rightarrow> bool" where
  "keep_below n (Idx i, p) = (i < n)"
| "keep_below n (k, p) = True"

definition set_length :: "obj \<Rightarrow> nat \<Rightarrow> obj" where
  "set_length ob n = ob\<lparr>kind := KArray n, props := filter (keep_below n) (props ob)\<rparr>"

text \<open>
  \<open>ToNumber\<close> of a string, when the result is an integer: white space is trimmed,
  the empty string is 0, a numeral is hexadecimal, octal or binary behind its prefix,
  or decimal with an optional sign, fraction and exponent.  The numeral is read
  exactly.  \<open>None\<close> is a number that is no integer (\<open>NaN\<close>, an infinity, a fraction).
\<close>

definition is_space :: "char \<Rightarrow> bool" where
  "is_space c = (c \<in> set [CHR 0x20, CHR 0x09, CHR 0x0A, CHR 0x0B, CHR 0x0C, CHR 0x0D, CHR 0xA0])"

definition trim :: "string \<Rightarrow> string" where
  "trim s = rev (dropWhile is_space (rev (dropWhile is_space s)))"

definition digit_of :: "nat \<Rightarrow> char \<Rightarrow> nat option" where
  "digit_of b c =
     (let n = (of_char c :: nat);
          d = (if 48 \<le> n \<and> n \<le> 57 then Some (n - 48)
               else if 97 \<le> n \<and> n \<le> 102 then Some (n - 87)
               else if 65 \<le> n \<and> n \<le> 70 then Some (n - 55)
               else None)
      in case d of Some v \<Rightarrow> if v < b then Some v else None | None \<Rightarrow> None)"

fun numeral_of :: "nat \<Rightarrow> nat \<Rightarrow> string \<Rightarrow> nat option" where
  "numeral_of b acc [] = Some acc"
| "numeral_of b acc (c # cs) =
     (case digit_of b c of Some d \<Rightarrow> numeral_of b (acc * b + d) cs | None \<Rightarrow> None)"

definition signed_of :: "string \<Rightarrow> int option" where
  "signed_of s =
     (case s of
        [] \<Rightarrow> None
      | c # cs \<Rightarrow>
          if c = CHR ''-'' then (if cs = [] then None else map_option (\<lambda>n. - int n) (numeral_of 10 0 cs))
          else if c = CHR ''+'' then (if cs = [] then None else map_option int (numeral_of 10 0 cs))
          else map_option int (numeral_of 10 0 s))"

definition scale :: "nat \<Rightarrow> int \<Rightarrow> int option" where
  "scale m e =
     (if 0 \<le> e then Some (int m * 10 ^ nat e)
      else if 10 ^ nat (- e) dvd m then Some (int (m div 10 ^ nat (- e)))
      else None)"

definition is_exp :: "char \<Rightarrow> bool" where
  "is_exp c = (c = CHR ''e'' \<or> c = CHR ''E'')"

definition decimal_of :: "string \<Rightarrow> int option" where
  "decimal_of s =
     (let mant = takeWhile (\<lambda>c. \<not> is_exp c) s;
          rest = dropWhile (\<lambda>c. \<not> is_exp c) s;
          ip = takeWhile (\<lambda>c. c \<noteq> CHR ''.'') mant;
          fp = drop 1 (dropWhile (\<lambda>c. c \<noteq> CHR ''.'') mant);
          ex = (if rest = [] then Some 0 else signed_of (drop 1 rest))
      in if ip = [] \<and> fp = [] then None
         else (case (numeral_of 10 0 (ip @ fp), ex) of
                 (Some m, Some e) \<Rightarrow> scale m (e - int (length fp))
               | _ \<Rightarrow> None))"

definition prefixed :: "string \<Rightarrow> string \<Rightarrow> string \<Rightarrow> bool" where
  "prefixed lower upper s = (take 2 s = lower \<or> take 2 s = upper)"

definition based :: "nat \<Rightarrow> string \<Rightarrow> int option" where
  "based b s = (if s = [] then None else map_option int (numeral_of b 0 s))"

definition string_to_int :: "string \<Rightarrow> int option" where
  "string_to_int s =
     (let t = trim s in
      if t = [] then Some 0
      else if prefixed ''0x'' ''0X'' t then based 16 (drop 2 t)
      else if prefixed ''0o'' ''0O'' t then based 8 (drop 2 t)
      else if prefixed ''0b'' ''0B'' t then based 2 (drop 2 t)
      else if hd t = CHR ''-'' then map_option uminus (decimal_of (tl t))
      else if hd t = CHR ''+'' then decimal_of (tl t)
      else decimal_of t)"

text \<open>
  \<open>ToNumber\<close> of a value, when the result is an integer.  An object converts by the
  built-in \<open>valueOf\<close> and \<open>toString\<close>: a date to its time, an array of at most one
  element that is not an object to what that element reads as, any other object to
  \<open>NaN\<close>.  A symbol does not convert.
\<close>

fun to_number :: "heap \<Rightarrow> val \<Rightarrow> int option outcome" where
  "to_number h Undefined = Returns None"
| "to_number h Null = Returns (Some 0)"
| "to_number h (Bool b) = Returns (Some (if b then 1 else 0))"
| "to_number h (Num n) = Returns (Some n)"
| "to_number h (Str s) = Returns (string_to_int s)"
| "to_number h (Sym n) = Throws TypeError"
| "to_number h (Ref a) =
     Returns
       (case kind (deref h a) of
          KDate t \<Rightarrow> Some t
        | KArray n \<Rightarrow>
            if n = 0 then Some 0
            else if n = 1 then
              (case obj_get h a (Idx 0) of
                 Undefined \<Rightarrow> Some 0
               | Null \<Rightarrow> Some 0
               | Num m \<Rightarrow> Some m
               | Str s \<Rightarrow> string_to_int s
               | _ \<Rightarrow> None)
            else None
        | _ \<Rightarrow> None)"
| "to_number h (Fn a) = Returns None"
| "to_number h (Native f) = Returns None"

text \<open>The value as the length of an array: an integer from 0 to \<open>2^32 - 1\<close>.\<close>

definition to_length :: "heap \<Rightarrow> val \<Rightarrow> nat outcome" where
  "to_length h x =
     then_do (to_number h x)
       (\<lambda>r. case r of
              Some n \<Rightarrow> if 0 \<le> n \<and> n \<le> max_length then Returns (nat n) else Throws RangeError
            | None \<Rightarrow> Throws RangeError)"

text \<open>The assignment \<open>v[k] = x\<close> in strict mode.  An assignment to a property of a
  native function is not recorded.\<close>

definition obj_set :: "heap \<Rightarrow> nat \<Rightarrow> key \<Rightarrow> val \<Rightarrow> heap outcome" where
  "obj_set h a k x =
     (let ob = deref h a in
      if getInternalProto (kind ob) = TArray \<and> k = Name ''length'' then
        then_do (to_length h x) (\<lambda>n. Returns (h[a := set_length ob n]))
      else
        (case find_prop (Suc (length h)) h a k of
           Some (Accessor g s e) \<Rightarrow> if s then Returns h else Throws TypeError
         | Some (Data v e) \<Rightarrow>
             (case own_prop ob k of
                Some (Data v' e') \<Rightarrow> Returns (h[a := define_own ob k (Data x e')])
              | _ \<Rightarrow> Returns (h[a := define_own ob k (Data x True)]))
         | None \<Rightarrow> Returns (h[a := define_own ob k (Data x True)])))"

fun js_set :: "heap \<Rightarrow> val \<Rightarrow> key \<Rightarrow> val \<Rightarrow> heap outcome" where
  "js_set h (Ref a) k x = obj_set h a k x"
| "js_set h (Fn a) k x = obj_set h a k x"
| "js_set h (Native f) k x = Returns h"
| "js_set h v k x = Throws TypeError"

text \<open>\<open>Array.prototype.push\<close> of one element onto an array: the element is added at
  the index of the length; an array of the greatest length cannot grow.\<close>

definition push :: "heap \<Rightarrow> nat \<Rightarrow> val \<Rightarrow> heap" where
  "push h a x = h[a := define_own (deref h a) (Idx (array_length (deref h a))) (Data x True)]"

definition array_push :: "heap \<Rightarrow> nat \<Rightarrow> val \<Rightarrow> heap outcome" where
  "array_push h a x =
     (if int (array_length (deref h a)) < max_length then Returns (push h a x) else Throws RangeError)"

subsection \<open>Own keys\<close>

fun idx_keys :: "(key \<times> property) list \<Rightarrow> nat list" where
  "idx_keys [] = []"
| "idx_keys ((Idx i, p) # ps) = i # idx_keys ps"
| "idx_keys (kp # ps) = idx_keys ps"

fun is_name :: "key \<Rightarrow> bool" where
  "is_name (Name s) = True"
| "is_name k = False"

fun is_symbol :: "key \<Rightarrow> bool" where
  "is_symbol (Symk n) = True"
| "is_symbol k = False"

text \<open>\<open>Object.getOwnPropertyNames\<close> and \<open>Reflect.ownKeys\<close>: the indices in ascending
  order, then the string keys (for an array, \<open>length\<close> first), then the symbols.\<close>

definition getOwnPropertyNames :: "obj \<Rightarrow> key list" where
  "getOwnPropertyNames ob =
     map Idx (sort (idx_keys (props ob)))
     @ (if getInternalProto (kind ob) = TArray then [Name ''length''] else [])
     @ filter is_name (map fst (props ob))"

definition ownKeys :: "obj \<Rightarrow> key list" where
  "ownKeys ob = getOwnPropertyNames ob @ filter is_symbol (map fst (props ob))"

section \<open>Options\<close>

text \<open>
  An options object is a bag of optional properties: \<open>None\<close> is a property that is
  absent, \<open>Some v\<close> one that is set to \<open>v\<close> (also to \<open>undefined\<close>;
  \<open>Object.assign\<close> tells the two apart).  A key path (\<open>chain\<close>) is \<open>null\<close>,
  \<open>undefined\<close> or \<open>false\<close>, or a string that has been split at its separator, or an
  array of segments.  A segment is the property key it names together with what
  \<open>Number\<close> makes of it: \<open>Some n\<close> when that is the integer \<open>n\<close>.
\<close>

datatype seg = Seg key "int option"

datatype chain = ChainAbsent | ChainStr "seg list" | ChainArr "seg list"

text \<open>The \<open>shallow\<close> option: falsy, \<open>true\<close>, an array of key paths, a string that is
  not empty (the code indexes it: its characters are the key paths), or another truthy
  value, which has no \<open>length\<close> and no indexed elements.\<close>

datatype shallow_opt = ShFalsy | ShTrue | ShKeys "chain list" | ShStr string | ShOther

record options =
  shallow :: shallow_opt
  prototype :: "val option"
  symbols :: "val option"
  nullOverride :: "val option"
  mergeArrays :: "val option"
  deep :: "val option"
  once :: "val option"
  only :: "val option"
  part :: "val option"

definition no_options :: options where
  "no_options = \<lparr>shallow = ShFalsy, prototype = None, symbols = None, nullOverride = None,
     mergeArrays = None, deep = None, once = None, only = None, part = None\<rparr>"

text \<open>Reading a property of the options object.\<close>

fun opt :: "val option \<Rightarrow> val" where
  "opt None = Undefined"
| "opt (Some v) = v"

text \<open>\<open>internals.keys\<close>\<close>

definition keys :: "obj \<Rightarrow> options \<Rightarrow> key list" where
  "keys ob options =
     (if opt (symbols options) \<noteq> Bool False then ownKeys ob else getOwnPropertyNames ob)"

section \<open>Key paths: \<open>reach\<close> and \<open>reachSet\<close>\<close>

text \<open>The decimal numeral of a natural number, for the string key of a negative index.\<close>

definition digit :: "nat \<Rightarrow> char" where
  "digit d = ''0123456789'' ! d"

function dec :: "nat \<Rightarrow> string" where
  "dec n = (if n < 10 then [digit n] else dec (n div 10) @ [digit (n mod 10)])"
  by pat_completeness auto
termination
  by (relation "measure (\<lambda>n. n)") auto

declare dec.simps [simp del]

text \<open>The property key of a number.\<close>

definition key_of_int :: "int \<Rightarrow> key" where
  "key_of_int j = (if 0 \<le> j then Idx (nat j) else Name (CHR ''-'' # dec (nat (- j))))"

text \<open>
  \<open>exports.reach(obj, chain)\<close> as \<open>internals.store\<close> calls it: without options, so
  that the separator is \<open>'.'\<close>, \<open>strict\<close>, \<open>iterables\<close> and \<open>default\<close> are
  \<open>undefined\<close>, and \<open>functions\<close> is not \<open>false\<close>.  On an array a segment that
  \<open>Number\<close> turns into an integer is used as that index, a negative one counted from
  the end; \<open>Number\<close> of a symbol throws.  The messages of the assertions are kept
  without the key and the chain they go on to print.
\<close>

fun reach_path :: "heap \<Rightarrow> val \<Rightarrow> seg list \<Rightarrow> val outcome" where
  "reach_path h ref [] = Returns ref"
| "reach_path h ref (Seg k num # path) =
     (if isArray h ref \<and> is_symbol k then Throws TypeError
      else
        let key = (if isArray h ref then
                     (case num of
                        Some number \<Rightarrow>
                          key_of_int (if number < 0
                                      then int (array_length (deref h (addr ref))) + number
                                      else number)
                      | None \<Rightarrow> k)
                   else k)
        in if \<not> truthy ref \<or> js_get h ref key = Undefined then
             (if typeof ref = Tfunction
              then Throws (AssertError ''Invalid segment'')
              else Returns Undefined)
           else reach_path h (js_get h ref key) path)"

fun reach :: "heap \<Rightarrow> val \<Rightarrow> chain \<Rightarrow> val outcome" where
  "reach h obj ChainAbsent = Returns obj"
| "reach h obj (ChainStr path) = reach_path h obj path"
| "reach h obj (ChainArr path) = reach_path h obj path"

text \<open>\<open>internals.reachSet\<close>: the segments are used as they are; the last one is
  assigned, and every one is read.\<close>

fun reachSet_path :: "heap \<Rightarrow> val \<Rightarrow> seg list \<Rightarrow> val \<Rightarrow> heap outcome" where
  "reachSet_path h ref [] value = Returns h"
| "reachSet_path h ref (Seg k num # path) value =
     (case (if path = [] then js_set h ref k value else Returns h) of
        Returns h' \<Rightarrow>
          if ref = Undefined \<or> ref = Null then Throws TypeError
          else reachSet_path h' (js_get h' ref k) path value
      | Throws e \<Rightarrow> Throws e
      | OutOfFuel \<Rightarrow> OutOfFuel)"

fun reachSet :: "heap \<Rightarrow> val \<Rightarrow> chain \<Rightarrow> val \<Rightarrow> heap outcome" where
  "reachSet h obj ChainAbsent value = Throws TypeError"
| "reachSet h obj (ChainStr path) value = reachSet_path h obj path value"
| "reachSet h obj (ChainArr path) value = reachSet_path h obj path value"

text \<open>The storage of \<open>internals.store\<close> is a \<open>Map\<close> from key paths to values, in the
  order in which the paths were first set.\<close>

type_synonym storage = "(chain \<times> val) list"

fun storage_set :: "storage \<Rightarrow> chain \<Rightarrow> val \<Rightarrow> storage" where
  "storage_set [] c v = [(c, v)]"
| "storage_set ((c', v') # st) c v =
     (if c' = c then (c, v) # st else (c', v') # storage_set st c v)"

fun store_loop :: "heap \<Rightarrow> val \<Rightarrow> chain list \<Rightarrow> storage \<Rightarrow> (heap \<times> storage) outcome" where
  "store_loop h source [] storage = Returns (h, storage)"
| "store_loop h source (key # keylist) storage =
     (case reach h source key of
        Returns value \<Rightarrow>
          if typeof value = Tobject \<or> typeof value = Tfunction then
            (case reachSet h source key Undefined of
               Returns h' \<Rightarrow> store_loop h' source keylist (storage_set storage key value)
             | Throws e \<Rightarrow> Throws e
             | OutOfFuel \<Rightarrow> OutOfFuel)
          else store_loop h source keylist storage
      | Throws e \<Rightarrow> Throws e
      | OutOfFuel \<Rightarrow> OutOfFuel)"

definition store :: "heap \<Rightarrow> val \<Rightarrow> chain list \<Rightarrow> (heap \<times> storage) outcome" where
  "store h source keylist = store_loop h source keylist []"

fun restore :: "heap \<Rightarrow> val \<Rightarrow> val \<Rightarrow> storage \<Rightarrow> heap outcome" where
  "restore h copy source [] = Returns h"
| "restore h copy source ((key, value) # storage) =
     (case reachSet h copy key value of
        Returns h1 \<Rightarrow>
          (case reachSet h1 source key value of
             Returns h2 \<Rightarrow> restore h2 copy source storage
           | Throws e \<Rightarrow> Throws e
           | OutOfFuel \<Rightarrow> OutOfFuel)
      | Throws e \<Rightarrow> Throws e
      | OutOfFuel \<Rightarrow> OutOfFuel)"

section \<open>\<open>clone\<close>\<close>

text \<open>
  The \<open>switch\<close> on the internal prototype, up to the point where the new object
  exists: a buffer, a date or a pattern is copied and returned at once; an object whose
  prototype is immutable is returned itself; every other object gets an empty target
  that is filled afterwards.  \<open>new proto.constructor()\<close> runs code of the caller; it
  is taken to build an empty container of the kind of the source, as the constructor of
  that kind and of its subclasses does.
\<close>

datatype fresh = Copied obj | Same | Fill obj | Fails error

definition needsProtoHack :: "tag \<Rightarrow> bool" where
  "needsProtoHack t = (t = TSet \<or> t = TMap \<or> t = TWeakSet \<or> t = TWeakMap)"

fun blank :: "kind \<Rightarrow> kind" where
  "blank (KSet vs) = KSet []"
| "blank (KMap es) = KMap []"
| "blank k = k"

definition proto_get :: "heap \<Rightarrow> protoref \<Rightarrow> key \<Rightarrow> val" where
  "proto_get h pr k = (case pr of PObj p \<Rightarrow> obj_get h p k | _ \<Rightarrow> Undefined)"

definition new_target :: "heap \<Rightarrow> nat \<Rightarrow> options \<Rightarrow> fresh" where
  "new_target h a options =
     (let ob = deref h a; baseProto = getInternalProto (kind ob) in
      case kind ob of
        KBuffer bs \<Rightarrow> Copied \<lparr>kind = KBuffer bs, proto = PBuiltin TBuffer, props = []\<rparr>
      | KDate t \<Rightarrow> Copied \<lparr>kind = KDate t, proto = PBuiltin TDate, props = []\<rparr>
      | KRegex src flags \<Rightarrow> Copied \<lparr>kind = KRegex src flags, proto = PBuiltin TRegex, props = []\<rparr>
      | KArray n \<Rightarrow> Fill \<lparr>kind = KArray 0, proto = PBuiltin TArray, props = []\<rparr>
      | _ \<Rightarrow>
          if opt (prototype options) \<noteq> Bool False then
            if proto ob \<noteq> PNull \<and> truthy (proto_get h (proto ob) (Name ''isImmutable'')) then Same
            else if needsProtoHack baseProto then
              (if proto ob = PNull then Fails TypeError
               else Fill \<lparr>kind = blank (kind ob), proto = proto ob, props = []\<rparr>)
            else Fill \<lparr>kind = KGeneric, proto = proto ob, props = []\<rparr>
          else if needsProtoHack baseProto then
            Fill \<lparr>kind = blank (kind ob), proto = PBuiltin baseProto, props = []\<rparr>
          else Fill \<lparr>kind = KGeneric, proto = PBuiltin TGeneric, props = []\<rparr>)"

text \<open>\<open>Set.prototype.add\<close> and \<open>Map.prototype.set\<close> on an object of the heap.\<close>

fun map_set :: "(val \<times> val) list \<Rightarrow> val \<Rightarrow> val \<Rightarrow> (val \<times> val) list" where
  "map_set [] k v = [(k, v)]"
| "map_set ((k', v') # es) k v = (if k' = k then (k, v) # es else (k', v') # map_set es k v)"

definition set_add :: "heap \<Rightarrow> nat \<Rightarrow> val \<Rightarrow> heap" where
  "set_add h a v =
     (case kind (deref h a) of
        KSet vs \<Rightarrow> h[a := (deref h a)\<lparr>kind := KSet (if v \<in> set vs then vs else vs @ [v])\<rparr>]
      | _ \<Rightarrow> h)"

definition map_put :: "heap \<Rightarrow> nat \<Rightarrow> val \<Rightarrow> val \<Rightarrow> heap" where
  "map_put h a k v =
     (case kind (deref h a) of
        KMap es \<Rightarrow> h[a := (deref h a)\<lparr>kind := KMap (map_set es k v)\<rparr>]
      | _ \<Rightarrow> h)"

fun set_values :: "kind \<Rightarrow> val list" where
  "set_values (KSet vs) = vs"
| "set_values k = []"

fun map_entries :: "kind \<Rightarrow> (val \<times> val) list" where
  "map_entries (KMap es) = es"
| "map_entries k = []"

text \<open>The visited map \<open>seen\<close>: from the address of a source object to the address of
  the target made for it; \<open>None\<close> is the \<open>null\<close> of a call that has no map.\<close>

type_synonym seen = "(nat \<times> nat) list"

fun seen_set :: "seen option \<Rightarrow> nat \<Rightarrow> nat \<Rightarrow> seen option" where
  "seen_set None a b = None"
| "seen_set (Some s) a b = Some ((a, b) # s)"

definition seen_or_new :: "seen option \<Rightarrow> seen" where
  "seen_or_new seen = (case seen of Some s \<Rightarrow> s | None \<Rightarrow> [])"

text \<open>The key path that is a string of the one character \<open>c\<close>: a dot splits into two
  empty segments; \<open>Number\<close> makes 0 of an empty segment and of white space.\<close>

definition char_chain :: "char \<Rightarrow> chain" where
  "char_chain c =
     (if c = CHR ''.'' then ChainStr [Seg (Name []) (Some 0), Seg (Name []) (Some 0)]
      else case digit_of 10 c of
             Some d \<Rightarrow> ChainStr [Seg (Idx d) (Some (int d))]
           | None \<Rightarrow> ChainStr [Seg (Name [c]) (if is_space c then Some 0 else None)])"

text \<open>\<open>keys[i]\<close> for \<open>i\<close> below \<open>keys.length\<close>, where \<open>keys\<close> is the \<open>shallow\<close>
  option.\<close>

definition shallow_keys :: "shallow_opt \<Rightarrow> chain list" where
  "shallow_keys s =
     (case s of ShKeys keylist \<Rightarrow> keylist | ShStr str \<Rightarrow> map char_chain str | _ \<Rightarrow> [])"

definition descriptor_enumerable :: "property option \<Rightarrow> bool" where
  "descriptor_enumerable descriptor = (case descriptor of Some d \<Rightarrow> enumerable d | None \<Rightarrow> True)"

definition is_accessor :: "property option \<Rightarrow> bool" where
  "is_accessor descriptor =
     (case descriptor of Some (Accessor g s e) \<Rightarrow> g \<noteq> None \<or> s | _ \<Rightarrow> False)"

text \<open>
  The body of \<open>exports.clone\<close> calls the local function \<open>clone\<close>, which is
  \<open>exports.clone\<close> itself or, under \<open>shallow: true\<close>, the identity.  The loops of
  the body take that function as their first argument \<open>local_clone\<close>.
\<close>

type_synonym cloner = "heap \<Rightarrow> val \<Rightarrow> options \<Rightarrow> seen option \<Rightarrow> (heap \<times> seen option \<times> val) outcome"

definition identity_clone :: cloner where
  "identity_clone h value options seen = Returns (h, seen, value)"

text \<open>\<open>for (const value of obj) newObj.add(clone(value, options, seen))\<close>\<close>

fun clone_set :: "cloner \<Rightarrow> heap \<Rightarrow> nat \<Rightarrow> options \<Rightarrow> seen option \<Rightarrow> val list \<Rightarrow> (heap \<times> seen option) outcome" where
  "clone_set local_clone h newObj options seen [] = Returns (h, seen)"
| "clone_set local_clone h newObj options seen (value # rest) =
     then_do (local_clone h value options seen)
       (\<lambda>(h', seen', v). clone_set local_clone (set_add h' newObj v) newObj options seen' rest)"

text \<open>\<open>for (const [key, value] of obj) newObj.set(key, clone(value, options, seen))\<close>\<close>

fun clone_map :: "cloner \<Rightarrow> heap \<Rightarrow> nat \<Rightarrow> options \<Rightarrow> seen option \<Rightarrow> (val \<times> val) list \<Rightarrow> (heap \<times> seen option) outcome" where
  "clone_map local_clone h newObj options seen [] = Returns (h, seen)"
| "clone_map local_clone h newObj options seen ((key, value) # rest) =
     then_do (local_clone h value options seen)
       (\<lambda>(h', seen', v). clone_map local_clone (map_put h' newObj key v) newObj options seen' rest)"

text \<open>The loop over the own keys of the source \<open>a\<close>: an accessor is defined on the
  target as it is, any other property with a clone of its value.\<close>

fun clone_keys :: "cloner \<Rightarrow> heap \<Rightarrow> nat \<Rightarrow> nat \<Rightarrow> options \<Rightarrow> seen option \<Rightarrow> key list \<Rightarrow> (heap \<times> seen option) outcome" where
  "clone_keys local_clone h a newObj options seen [] = Returns (h, seen)"
| "clone_keys local_clone h a newObj options seen (key # rest) =
     (if getInternalProto (kind (deref h a)) = TArray \<and> key = Name ''length''
      then clone_keys local_clone h a newObj options seen rest
      else if is_accessor (own_prop (deref h a) key)
      then clone_keys local_clone (h[newObj := define_own (deref h newObj) key (the (own_prop (deref h a) key))])
             a newObj options seen rest
      else
        then_do (local_clone h (obj_get h a key) options seen)
          (\<lambda>(h', seen', v).
             clone_keys local_clone
               (h'[newObj := define_own (deref h' newObj) key
                    (Data v (descriptor_enumerable (own_prop (deref h a) key)))])
               a newObj options seen' rest))"

text \<open>From \<open>seen.set(obj, newObj)\<close> to the end of \<open>exports.clone\<close>.\<close>

definition clone_fill :: "cloner \<Rightarrow> heap \<Rightarrow> nat \<Rightarrow> nat \<Rightarrow> options \<Rightarrow> seen option \<Rightarrow> (heap \<times> seen option \<times> val) outcome" where
  "clone_fill local_clone h a newObj options seen =
     then_do (clone_set local_clone h newObj options (seen_set seen a newObj) (set_values (kind (deref h a))))
       (\<lambda>(h2, seen2).
     then_do (clone_map local_clone h2 newObj options seen2 (map_entries (kind (deref h2 a))))
       (\<lambda>(h3, seen3).
     then_do (clone_keys local_clone h3 a newObj options seen3 (keys (deref h3 a) options))
       (\<lambda>(h4, seen4).
          if getInternalProto (kind (deref h4 a)) = TArray
          then Returns (h4[newObj := set_length (deref h4 newObj) (array_length (deref h4 a))],
                        seen4, Ref newObj)
          else Returns (h4, seen4, Ref newObj))))"

text \<open>From \<open>const baseProto\<close> on.\<close>

definition clone_object :: "cloner \<Rightarrow> heap \<Rightarrow> val \<Rightarrow> options \<Rightarrow> seen option \<Rightarrow> (heap \<times> seen option \<times> val) outcome" where
  "clone_object local_clone h obj options seen =
     (case new_target h (addr obj) options of
        Fails e \<Rightarrow> Throws e
      | Same \<Rightarrow> Returns (h, seen, obj)
      | Copied ob \<Rightarrow> Returns (fst (alloc h ob), seen, Ref (snd (alloc h ob)))
      | Fill ob \<Rightarrow> clone_fill local_clone (fst (alloc h ob)) (addr obj) (snd (alloc h ob)) options seen)"

text \<open>\<open>internals.cloneWithShallow\<close>, given \<open>exports.clone\<close>.\<close>

definition cloneWithShallow :: "cloner \<Rightarrow> heap \<Rightarrow> val \<Rightarrow> options \<Rightarrow> (heap \<times> val) outcome" where
  "cloneWithShallow exports_clone h source options =
     then_do (store h source (shallow_keys (shallow options)))
       (\<lambda>(h1, storage).
     then_do (exports_clone h1 source (options\<lparr>shallow := ShFalsy\<rparr>) None)
       (\<lambda>(h2, seen', copy).
     then_do (restore h2 copy source storage)
       (\<lambda>h3. Returns (h3, copy))))"

text \<open>
  \<open>exports.clone\<close>.  The first argument bounds the depth of the recursion: a call
  that needs more returns \<open>OutOfFuel\<close>.
\<close>

primrec clone :: "nat \<Rightarrow> cloner" where
  "clone 0 = (\<lambda>h obj options seen. OutOfFuel)"
| "clone (Suc n) = (\<lambda>h obj options seen.
     if typeof obj \<noteq> Tobject \<or> obj = Null then Returns (h, seen, obj)
     else if shallow options \<noteq> ShFalsy \<and> shallow options \<noteq> ShTrue then
       then_do (cloneWithShallow (clone n) h obj options) (\<lambda>(h', copy). Returns (h', seen, copy))
     else if shallow options = ShTrue then
       clone_object identity_clone h obj options seen
     else
       (case map_of (seen_or_new seen) (addr obj) of
          Some lookup \<Rightarrow> Returns (h, Some (seen_or_new seen), Ref lookup)
        | None \<Rightarrow> clone_object (clone n) h obj options (Some (seen_or_new seen))))"

section \<open>\<open>merge\<close> and \<open>applyToDefaults\<close>\<close>

text \<open>\<open>Object.assign({ nullOverride: true, mergeArrays: true }, options)\<close>: a property
  that \<open>options\<close> has, whatever its value, replaces the default.\<close>

definition merge_options :: "options \<Rightarrow> options" where
  "merge_options options =
     options\<lparr>nullOverride := (case nullOverride options of None \<Rightarrow> Some (Bool True) | Some v \<Rightarrow> Some v),
             mergeArrays := (case mergeArrays options of None \<Rightarrow> Some (Bool True) | Some v \<Rightarrow> Some v)\<rparr>"

text \<open>The options \<open>{ symbols: options.symbols }\<close> of the calls of \<open>clone\<close>.\<close>

definition symbols_only :: "options \<Rightarrow> options" where
  "symbols_only options = no_options\<lparr>symbols := Some (opt (symbols options))\<rparr>"

definition propertyIsEnumerable :: "obj \<Rightarrow> key \<Rightarrow> bool" where
  "propertyIsEnumerable ob k = (case own_prop ob k of Some p \<Rightarrow> enumerable p | None \<Rightarrow> False)"

text \<open>\<open>value instanceof Date\<close>, \<open>Buffer.isBuffer(value)\<close> and
  \<open>value instanceof RegExp\<close>, read from the kind of the object.\<close>

definition special_kind :: "heap \<Rightarrow> val \<Rightarrow> bool" where
  "special_kind h v =
     (case v of
        Ref a \<Rightarrow> getInternalProto (kind (deref h a)) \<in> {TDate, TBuffer, TRegex}
      | _ \<Rightarrow> False)"

type_synonym merger = "heap \<Rightarrow> val \<Rightarrow> val \<Rightarrow> options \<Rightarrow> (heap \<times> val) outcome"

text \<open>The loop over the elements of a source array.  It reads \<open>source.length\<close> anew
  in every round; the first argument bounds the number of rounds.\<close>

fun merge_push :: "nat \<Rightarrow> cloner \<Rightarrow> heap \<Rightarrow> val \<Rightarrow> val \<Rightarrow> options \<Rightarrow> nat \<Rightarrow> heap outcome" where
  "merge_push 0 exports_clone h target source options i = OutOfFuel"
| "merge_push (Suc b) exports_clone h target source options i =
     (if i < array_length (deref h (addr source)) then
        then_do (exports_clone h (js_get h source (Idx i)) (symbols_only options) None)
          (\<lambda>(h', seen', v).
             then_do (array_push h' (addr target) v)
               (\<lambda>h''. merge_push b exports_clone h'' target source options (Suc i)))
      else Returns h)"

text \<open>One round of the loop over the keys of a source record.\<close>

definition merge_key :: "cloner \<Rightarrow> merger \<Rightarrow> heap \<Rightarrow> val \<Rightarrow> val \<Rightarrow> options \<Rightarrow> key \<Rightarrow> heap outcome" where
  "merge_key exports_clone exports_merge h target source options key =
     (if key = Name ''__proto__'' \<or> \<not> propertyIsEnumerable (deref h (addr source)) key then Returns h
      else
        let value = js_get h source key in
        if truthy value \<and> typeof value = Tobject then
          (if \<not> truthy (js_get h target key) \<or>
              typeof (js_get h target key) \<noteq> Tobject \<or>
              isArray h (js_get h target key) \<noteq> isArray h value \<or>
              special_kind h value
           then then_do (exports_clone h value (symbols_only options) None)
                  (\<lambda>(h', seen', v). js_set h' target key v)
           else then_do (exports_merge h (js_get h target key) value options) (\<lambda>(h', t). Returns h'))
        else if value \<noteq> Null \<and> value \<noteq> Undefined then js_set h target key value
        else if truthy (opt (nullOverride options)) then js_set h target key value
        else Returns h)"

fun merge_keys :: "cloner \<Rightarrow> merger \<Rightarrow> heap \<Rightarrow> val \<Rightarrow> val \<Rightarrow> options \<Rightarrow> key list \<Rightarrow> heap outcome" where
  "merge_keys exports_clone exports_merge h target source options [] = Returns h"
| "merge_keys exports_clone exports_merge h target source options (key # rest) =
     then_do (merge_key exports_clone exports_merge h target source options key)
       (\<lambda>h'. merge_keys exports_clone exports_merge h' target source options rest)"

text \<open>\<open>exports.merge\<close>.  The first argument bounds the depth of the recursion and the
  number of rounds of the loop over a source array.\<close>

primrec merge :: "nat \<Rightarrow> merger" where
  "merge 0 = (\<lambda>h target source options. OutOfFuel)"
| "merge (Suc n) = (\<lambda>h target source options.
     if \<not> (truthy target \<and> typeof target = Tobject)
     then Throws (AssertError ''Invalid target value: must be an object'')
     else if \<not> (source = Null \<or> source = Undefined \<or> typeof source = Tobject)
     then Throws (AssertError ''Invalid source value: must be null, undefined, or an object'')
     else if \<not> truthy source then Returns (h, target)
     else if isArray h source then
       (if \<not> isArray h target then Throws (AssertError ''Cannot merge array onto an object'')
        else
          then_do (if \<not> truthy (opt (mergeArrays (merge_options options)))
                   then js_set h target (Name ''length'') (Num 0) else Returns h)
            (\<lambda>h1.
          then_do (merge_push (Suc n) (clone n) h1 target source (merge_options options) 0)
            (\<lambda>h2. Returns (h2, target))))
     else
       then_do (merge_keys (clone n) (merge n) h target source (merge_options options)
                  (keys (deref h (addr source)) (merge_options options)))
         (\<lambda>h'. Returns (h', target)))"

text \<open>\<open>internals.applyToDefaultsWithShallow\<close>\<close>

definition applyToDefaultsWithShallow :: "nat \<Rightarrow> heap \<Rightarrow> val \<Rightarrow> val \<Rightarrow> options \<Rightarrow> (heap \<times> val) outcome" where
  "applyToDefaultsWithShallow n h defaults source options =
     (case shallow options of
        ShKeys keylist \<Rightarrow>
          then_do (clone n h defaults (no_options\<lparr>shallow := ShKeys keylist\<rparr>) None)
            (\<lambda>(h1, seen', copy).
               if source = Bool True then Returns (h1, copy)
               else
                 then_do (store h1 source keylist)
                   (\<lambda>(h2, storage).
                 then_do (merge n h2 copy source
                            (no_options\<lparr>mergeArrays := Some (Bool False), nullOverride := Some (Bool False)\<rparr>))
                   (\<lambda>(h3, t).
                 then_do (restore h3 copy source storage)
                   (\<lambda>h4. Returns (h4, copy)))))
      | _ \<Rightarrow> Throws (AssertError ''Invalid keys''))"

text \<open>\<open>exports.applyToDefaults\<close>; \<open>options\<close> is an options object.\<close>

definition applyToDefaults :: "nat \<Rightarrow> heap \<Rightarrow> val \<Rightarrow> val \<Rightarrow> options \<Rightarrow> (heap \<times> val) outcome" where
  "applyToDefaults n h defaults source options =
     (if \<not> (truthy defaults \<and> typeof defaults = Tobject)
      then Throws (AssertError ''Invalid defaults value: must be an object'')
      else if \<not> (\<not> truthy source \<or> source = Bool True \<or> typeof source = Tobject)
      then Throws (AssertError ''Invalid source value: must be true, falsy or an object'')
      else if \<not> truthy source then Returns (h, Null)
      else if shallow options \<noteq> ShFalsy then applyToDefaultsWithShallow n h defaults source options
      else
        then_do (clone n h defaults no_options None)
          (\<lambda>(h1, seen', copy).
             if source = Bool True then Returns (h1, copy)
             else merge n h1 copy source
                    (no_options\<lparr>nullOverride :=
                                  Some (if opt (nullOverride options) \<noteq> Undefined
                                        then opt (nullOverride options) else Bool False),
                                mergeArrays := Some (Bool False)\<rparr>)))"

section \<open>\<open>contain\<close>\<close>

text \<open>The string of a key, as \<open>Object.keys\<close> and \<open>Reflect.ownKeys\<close> report it.\<close>

fun val_of_key :: "key \<Rightarrow> val" where
  "val_of_key (Idx i) = Str (dec i)"
| "val_of_key (Name s) = Str s"
| "val_of_key (Symk n) = Sym n"

text \<open>\<open>Object.keys(values)\<close> followed by the enumerable own symbols of \<open>values\<close>.\<close>

definition enumerable_keys :: "obj \<Rightarrow> key list" where
  "enumerable_keys ob = filter (propertyIsEnumerable ob) (ownKeys ob)"

text \<open>The elements of an array, a hole reading as \<open>undefined\<close>.\<close>

definition elements :: "heap \<Rightarrow> val \<Rightarrow> val list" where
  "elements h v = map (\<lambda>i. js_get h v (Idx i)) [0..<array_length (deref h (addr v))]"

text \<open>\<open>values.indexOf(x)\<close>: \<open>None\<close> is \<open>-1\<close>.\<close>

fun indexOf :: "val list \<Rightarrow> val \<Rightarrow> nat option" where
  "indexOf [] x = None"
| "indexOf (v # vs) x = (if v = x then Some 0 else map_option Suc (indexOf vs x))"

text \<open>\<open>++matches[i]\<close>\<close>

definition increment :: "nat list \<Rightarrow> nat \<Rightarrow> nat list" where
  "increment matches i = matches[i := Suc (matches ! i)]"

text \<open>
  The module \<open>./deep-equal\<close> is not part of the sources: \<open>contain\<close> takes
  \<open>deepEqual\<close> as an argument.  The flags it is called with:
\<close>

record compare_flags =
  flag_prototype :: val
  flag_part :: val

type_synonym deep_equal = "heap \<Rightarrow> val \<Rightarrow> val \<Rightarrow> compare_flags \<Rightarrow> bool"

definition compareFlags :: "options \<Rightarrow> compare_flags" where
  "compareFlags options =
     (let hasOnly = (opt (only options) \<noteq> Undefined);
          hasPart = (opt (part options) \<noteq> Undefined)
      in \<lparr>flag_prototype = (if hasOnly then opt (only options)
                             else if hasPart then Bool (\<not> truthy (opt (part options))) else Bool False),
          flag_part = (if hasOnly then Bool (\<not> truthy (opt (only options)))
                        else if hasPart then opt (part options) else Bool False)\<rparr>)"

definition compare :: "deep_equal \<Rightarrow> heap \<Rightarrow> options \<Rightarrow> val \<Rightarrow> val \<Rightarrow> bool" where
  "compare deepEqual h options a b =
     (if truthy (opt (deep options)) then deepEqual h a b (compareFlags options) else a = b)"

subsection \<open>A string reference\<close>

text \<open>
  The pattern is the alternation of the values, each escaped by \<open>escapeRegex\<close> so that
  it matches itself.  At a position of the reference the first value that is a prefix
  of the rest matches; the callback counts it under \<open>values.indexOf\<close> of the match and
  removes it.  An empty match removes nothing and the scan moves on by one character;
  a match \<open>v\<close> that is not empty starts with the character \<open>c\<close> at the position,
  and the scan goes on behind it, \<open>length v - 1\<close> characters after \<open>c\<close>.
\<close>

fun is_string :: "val \<Rightarrow> bool" where
  "is_string (Str s) = True"
| "is_string v = False"

fun string_of :: "val \<Rightarrow> string" where
  "string_of (Str s) = s"
| "string_of v = []"

fun first_match :: "string list \<Rightarrow> string \<Rightarrow> string option" where
  "first_match [] s = None"
| "first_match (v # vs) s = (if take (length v) s = v then Some v else first_match vs s)"

text \<open>The callback: \<open>++matches[values.indexOf($1)]\<close>.\<close>

definition counted :: "val list \<Rightarrow> nat list \<Rightarrow> string \<Rightarrow> nat list" where
  "counted values matches v =
     (case indexOf values (Str v) of Some index \<Rightarrow> increment matches index | None \<Rightarrow> matches)"

function replace_all :: "val list \<Rightarrow> string \<Rightarrow> nat list \<Rightarrow> nat list \<times> string" where
  "replace_all values s matches =
     (case s of
        [] \<Rightarrow>
          (case first_match (map string_of values) [] of
             None \<Rightarrow> (matches, [])
           | Some v \<Rightarrow> (counted values matches v, []))
      | c # cs \<Rightarrow>
          (case first_match (map string_of values) (c # cs) of
             None \<Rightarrow> (case replace_all values cs matches of (m, rest) \<Rightarrow> (m, c # rest))
           | Some v \<Rightarrow>
               if v = [] then
                 (case replace_all values cs (counted values matches v) of (m, rest) \<Rightarrow> (m, c # rest))
               else replace_all values (drop (length v - 1) cs) (counted values matches v)))"
  by pat_completeness auto
termination
  by (relation "measure (\<lambda>(values, s, matches). length s)") auto

declare replace_all.simps [simp del]

subsection \<open>An array reference\<close>

text \<open>The inner loop: the first candidate, from \<open>j\<close> on, that is still eligible and
  compares equal to the element.\<close>

fun find_match :: "(val \<Rightarrow> val \<Rightarrow> bool) \<Rightarrow> bool \<Rightarrow> nat list \<Rightarrow> val list \<Rightarrow> val \<Rightarrow> nat \<Rightarrow> nat option" where
  "find_match cmp onlyOnce matches [] x j = None"
| "find_match cmp onlyOnce matches (v # vs) x j =
     (if (\<not> onlyOnce \<or> matches ! j = 0) \<and> cmp v x then Some j
      else find_match cmp onlyOnce matches vs x (Suc j))"

fun match_array :: "(val \<Rightarrow> val \<Rightarrow> bool) \<Rightarrow> bool \<Rightarrow> val list \<Rightarrow> val list \<Rightarrow> nat list \<Rightarrow> bool \<Rightarrow> nat list \<times> bool" where
  "match_array cmp onlyOnce values [] matches misses = (matches, misses)"
| "match_array cmp onlyOnce values (x # xs) matches misses =
     (case find_match cmp onlyOnce matches values x 0 of
        Some matched \<Rightarrow> match_array cmp onlyOnce values xs (increment matches matched) misses
      | None \<Rightarrow> match_array cmp onlyOnce values xs matches True)"

subsection \<open>A record reference\<close>

text \<open>The loop over the keys of the reference; \<open>None\<close> is the \<open>return false\<close> of a
  value that differs from the expected one.\<close>

fun match_keys :: "(val \<Rightarrow> val \<Rightarrow> bool) \<Rightarrow> heap \<Rightarrow> val \<Rightarrow> val option \<Rightarrow> val list \<Rightarrow> key list \<Rightarrow> nat list \<Rightarrow> bool \<Rightarrow> (nat list \<times> bool) option" where
  "match_keys cmp h ref valuePairs values [] matches misses = Some (matches, misses)"
| "match_keys cmp h ref valuePairs values (key # rest) matches misses =
     (case indexOf values (val_of_key key) of
        Some pos \<Rightarrow>
          (case valuePairs of
             Some pairs \<Rightarrow>
               if \<not> cmp (js_get h pairs key) (js_get h ref key) then None
               else match_keys cmp h ref valuePairs values rest (increment matches pos) misses
           | None \<Rightarrow> match_keys cmp h ref valuePairs values rest (increment matches pos) misses)
      | None \<Rightarrow> match_keys cmp h ref valuePairs values rest matches True)"

subsection \<open>The verdict\<close>

fun scan_matches :: "options \<Rightarrow> nat list \<Rightarrow> bool \<Rightarrow> bool" where
  "scan_matches options [] result = result"
| "scan_matches options (m # rest) result =
     (if (truthy (opt (once options)) \<and> 1 < m) \<or> (\<not> truthy (opt (part options)) \<and> m = 0)
      then False
      else scan_matches options rest (result \<or> m \<noteq> 0))"

definition verdict :: "options \<Rightarrow> nat list \<Rightarrow> bool \<Rightarrow> bool" where
  "verdict options matches misses =
     (if truthy (opt (only options)) \<and> (misses \<or> \<not> truthy (opt (once options)))
      then \<not> misses
      else scan_matches options matches False)"

subsection \<open>\<open>exports.contain\<close>\<close>

text \<open>The values as a list, and the record of expected values if there is one.\<close>

definition contain_values :: "heap \<Rightarrow> val \<Rightarrow> val \<Rightarrow> (val list \<times> val option) outcome" where
  "contain_values h ref values =
     (if typeof ref = Tobject \<and> typeof values = Tobject \<and> \<not> isArray h ref \<and> \<not> isArray h values
      then (if values = Null then Throws TypeError
            else Returns (map val_of_key (enumerable_keys (deref h (addr values))), Some values))
      else if isArray h values then Returns (elements h values, None)
      else Returns ([values], None))"

definition contain :: "deep_equal \<Rightarrow> heap \<Rightarrow> val \<Rightarrow> val \<Rightarrow> options \<Rightarrow> bool outcome" where
  "contain deepEqual h ref values0 options =
     then_do (contain_values h ref values0)
       (\<lambda>(values, valuePairs).
          if \<not> (typeof ref = Tstring \<or> typeof ref = Tobject)
          then Throws (AssertError ''Reference must be string or an object'')
          else if length values = 0 then Throws (AssertError ''Values array cannot be empty'')
          else
            let matches = replicate (length values) 0 in
            if typeof ref = Tstring then
              (if \<not> list_all is_string values
               then Throws (AssertError ''Cannot compare string reference to non-string value'')
               else (case replace_all values (string_of ref) matches of
                       (matches', leftovers) \<Rightarrow> Returns (verdict options matches' (leftovers \<noteq> []))))
            else if isArray h ref then
              (let onlyOnce = (truthy (opt (only options)) \<and> truthy (opt (once options))) in
               if onlyOnce \<and> array_length (deref h (addr ref)) \<noteq> length values then Returns False
               else (case match_array (compare deepEqual h options) onlyOnce values (elements h ref) matches False of
                       (matches', misses) \<Rightarrow> Returns (verdict options matches' misses)))
            else if ref = Null then Throws TypeError
            else
              (case match_keys (compare deepEqual h options) h ref valuePairs values
                      (keys (deref h (addr ref)) options) matches False of
                 None \<Rightarrow> Returns False
               | Some (matches', misses) \<Rightarrow> Returns (verdict options matches' misses)))"

section \<open>Literals\<close>

text \<open>The object of a record literal \<open>{k: v, ...}\<close> and of an array literal
  \<open>[v, ...]\<close>.\<close>

definition record_of :: "(key \<times> val) list \<Rightarrow> obj" where
  "record_of kvs =
     \<lparr>kind = KGeneric, proto = PBuiltin TGeneric, props = map (\<lambda>(k, v). (k, Data v True)) kvs\<rparr>"

definition array_of :: "val list \<Rightarrow> obj" where
  "array_of vs =
     \<lparr>kind = KArray (length vs), proto = PBuiltin TArray,
      props = map (\<lambda>i. (Idx i, Data (vs ! i) True)) [0..<length vs]\<rparr>"

text \<open>Plain equality standing in for \<open>deepEqual\<close> where the \<open>deep\<close> option is off.\<close>

definition no_deep_equal :: deep_equal where
  "no_deep_equal h a b flags = (a = b)"


section \<open>Predicates of the properties\<close>

text \<open>A heap \<open>h'\<close> that is \<open>h\<close> with objects added, and with no object changed
  below the address \<open>k\<close>.\<close>

definition unchanged_below :: "nat \<Rightarrow> heap \<Rightarrow> heap \<Rightarrow> bool" where
  "unchanged_below k h h' = (length h \<le> length h' \<and> (\<forall>a<k. a < length h \<longrightarrow> h' ! a = h ! a))"

text \<open>A function that clones leaves the objects that exist as they are.\<close>

definition cloner_frame :: "cloner \<Rightarrow> options \<Rightarrow> bool" where
  "cloner_frame cl options =
     (\<forall>h v s h' s' v'. cl h v options s = Returns (h', s', v') \<longrightarrow> unchanged_below (length h) h h')"

text \<open>The visited map only grows.\<close>

definition seen_grows :: "seen option \<Rightarrow> seen option \<Rightarrow> bool" where
  "seen_grows s s' = (map_of (seen_or_new s) \<subseteq>\<^sub>m map_of (seen_or_new s'))"

definition cloner_seen :: "cloner \<Rightarrow> options \<Rightarrow> bool" where
  "cloner_seen cl options =
     (\<forall>h v s h' s' v'. cl h v options s = Returns (h', s', v') \<longrightarrow> seen_grows s s')"

text \<open>An object for which \<open>clone\<close> makes a target that it records in the visited map
  and then fills: not a buffer, a date or a pattern, and not an immutable one.\<close>

definition tracked :: "heap \<Rightarrow> nat \<Rightarrow> options \<Rightarrow> bool" where
  "tracked h a options = (case new_target h a options of Fill ob \<Rightarrow> True | _ \<Rightarrow> False)"

text \<open>The prototype of the object declares \<open>isImmutable\<close>.\<close>

definition immutable :: "heap \<Rightarrow> nat \<Rightarrow> bool" where
  "immutable h a =
     (proto (deref h a) \<noteq> PNull \<and> truthy (proto_get h (proto (deref h a)) (Name ''isImmutable'')))"

section \<open>Example heaps\<close>

text \<open>A record \<open>a\<close> with \<open>a.self = a\<close>.\<close>

definition self_heap :: heap where
  "self_heap = [record_of [(Name ''self'', Ref 0), (Name ''x'', Num 1)]]"

text \<open>A record whose properties \<open>x\<close> and \<open>y\<close> are the same date.\<close>

definition date_heap :: heap where
  "date_heap =
     [record_of [(Name ''x'', Ref 1), (Name ''y'', Ref 1)],
      \<lparr>kind = KDate 1000, proto = PBuiltin TDate, props = []\<rparr>]"

text \<open>A prototype with \<open>isImmutable = true\<close> at address 0, and at address 1 a record,
  an array, and a record with a function \<open>f\<close> (at address 2) of that prototype.\<close>

definition immutable_proto :: obj where
  "immutable_proto = record_of [(Name ''isImmutable'', Bool True)]"

definition immutable_record :: heap where
  "immutable_record =
     [immutable_proto, \<lparr>kind = KGeneric, proto = PObj 0, props = [(Name ''x'', Data (Num 1) True)]\<rparr>]"

definition immutable_array :: heap where
  "immutable_array =
     [immutable_proto, \<lparr>kind = KArray 1, proto = PObj 0, props = [(Idx 0, Data (Num 1) True)]\<rparr>]"

definition immutable_with_function :: heap where
  "immutable_with_function =
     [immutable_proto,
      \<lparr>kind = KGeneric, proto = PObj 0, props = [(Name ''f'', Data (Fn 2) True)]\<rparr>,
      \<lparr>kind = KGeneric, proto = PBuiltin TGeneric, props = []\<rparr>]"

text \<open>The defaults \<open>{x: 1, y: {z: 1}}\<close> at address 0 and the source
  \<open>{x: null, y: {z: 2}}\<close> at address 2.\<close>

definition defaults_heap :: heap where
  "defaults_heap =
     [record_of [(Name ''x'', Num 1), (Name ''y'', Ref 1)], record_of [(Name ''z'', Num 1)],
      record_of [(Name ''x'', Null), (Name ''y'', Ref 3)], record_of [(Name ''z'', Num 2)]]"

definition shallow_y :: options where
  "shallow_y = no_options\<lparr>shallow := ShKeys [ChainStr [Seg (Name ''y'') None]]\<rparr>"

text \<open>Pushing a value onto an array object; the own elements of an array; an array all
  of whose elements are own data properties with values that are not objects.\<close>

definition push_obj :: "obj \<Rightarrow> val \<Rightarrow> obj" where
  "push_obj ob v = define_own ob (Idx (array_length ob)) (Data v True)"

definition own_elements :: "obj \<Rightarrow> val list" where
  "own_elements ob = map (\<lambda>i. read_prop (the (own_prop ob (Idx i)))) [0..<array_length ob]"

definition primitive_at :: "obj \<Rightarrow> nat \<Rightarrow> bool" where
  "primitive_at ob i =
     (case own_prop ob (Idx i) of
        Some (Data x e) \<Rightarrow> typeof x \<noteq> Tobject \<or> x = Null
      | _ \<Rightarrow> False)"

definition primitive_elements :: "obj \<Rightarrow> bool" where
  "primitive_elements ob = list_all (primitive_at ob) [0..<array_length ob]"

text \<open>The target array when the loop over the source array starts.\<close>

definition merge_base :: "heap \<Rightarrow> nat \<Rightarrow> options \<Rightarrow> obj" where
  "merge_base h t options =
     (if truthy (opt (mergeArrays (merge_options options))) then deref h t
      else set_length (deref h t) 0)"

section \<open>Regions of the heap\<close>

text \<open>
  \<open>P\<close> is a set of addresses to protect, \<open>S\<close> a set of addresses of plain data.  A
  value is outside \<open>P\<close> when it is no reference into \<open>P\<close>; an object refers outside
  \<open>P\<close> when its prototype, the values of its properties, what its getters return, and
  the elements and values it holds as a set or a map are outside \<open>P\<close>; a heap is
  separated from \<open>P\<close> when every object outside \<open>P\<close> refers outside \<open>P\<close>.
\<close>

definition out_of :: "nat set \<Rightarrow> val \<Rightarrow> bool" where
  "out_of P v = (case v of Ref u \<Rightarrow> u \<notin> P | _ \<Rightarrow> True)"

definition prop_out :: "nat set \<Rightarrow> property \<Rightarrow> bool" where
  "prop_out P p =
     (case p of
        Data v e \<Rightarrow> out_of P v
      | Accessor g s e \<Rightarrow> (case g of Some v \<Rightarrow> out_of P v | None \<Rightarrow> True))"

definition kind_out :: "nat set \<Rightarrow> kind \<Rightarrow> bool" where
  "kind_out P k =
     (case k of
        KSet vs \<Rightarrow> list_all (out_of P) vs
      | KMap es \<Rightarrow> list_all (\<lambda>e. out_of P (snd e)) es
      | _ \<Rightarrow> True)"

definition refs_out :: "nat set \<Rightarrow> obj \<Rightarrow> bool" where
  "refs_out P ob =
     ((case proto ob of PObj p \<Rightarrow> p \<notin> P | _ \<Rightarrow> True) \<and>
      list_all (\<lambda>kp. prop_out P (snd kp)) (props ob) \<and>
      kind_out P (kind ob))"

definition separated :: "heap \<Rightarrow> nat set \<Rightarrow> bool" where
  "separated h P = (\<forall>a<length h. a \<notin> P \<longrightarrow> refs_out P (h ! a))"

text \<open>
  A set \<open>S\<close> of plain data, closed in the heap: every object of \<open>S\<close> has a built-in
  prototype or none, has data properties only, and refers to objects of \<open>S\<close> only.
\<close>

definition inside :: "nat set \<Rightarrow> val \<Rightarrow> bool" where
  "inside S v = (case v of Ref u \<Rightarrow> u \<in> S | _ \<Rightarrow> True)"

definition plain_prop :: "nat set \<Rightarrow> property \<Rightarrow> bool" where
  "plain_prop S p = (case p of Data v e \<Rightarrow> inside S v | Accessor g s e \<Rightarrow> False)"

definition kind_in :: "nat set \<Rightarrow> kind \<Rightarrow> bool" where
  "kind_in S k =
     (case k of
        KSet vs \<Rightarrow> list_all (inside S) vs
      | KMap es \<Rightarrow> list_all (\<lambda>e. inside S (snd e)) es
      | _ \<Rightarrow> True)"

definition plain_obj :: "nat set \<Rightarrow> obj \<Rightarrow> bool" where
  "plain_obj S ob =
     ((case proto ob of PObj p \<Rightarrow> False | _ \<Rightarrow> True) \<and>
      list_all (\<lambda>kp. plain_prop S (snd kp)) (props ob) \<and>
      kind_in S (kind ob))"

definition plain_closed :: "heap \<Rightarrow> nat set \<Rightarrow> bool" where
  "plain_closed h S = (\<forall>a\<in>S. a < length h \<and> plain_obj S (h ! a))"

text \<open>A value to clone: plain data of \<open>S\<close>, or a value outside \<open>P\<close>.\<close>

definition value_ok :: "nat set \<Rightarrow> nat set \<Rightarrow> val \<Rightarrow> bool" where
  "value_ok P S v = (case v of Ref u \<Rightarrow> u \<in> S \<or> u \<notin> P | _ \<Rightarrow> True)"

definition seen_out :: "nat set \<Rightarrow> seen option \<Rightarrow> bool" where
  "seen_out P s = (\<forall>xy\<in>set (seen_or_new s). snd xy \<notin> P)"

text \<open>The objects of \<open>P\<close> are in \<open>h'\<close> what they are in \<open>h\<close>.\<close>

definition keeps :: "nat set \<Rightarrow> heap \<Rightarrow> heap \<Rightarrow> bool" where
  "keeps P h h' = (length h \<le> length h' \<and> (\<forall>a\<in>P. a < length h \<longrightarrow> h' ! a = h ! a))"

text \<open>The state in which \<open>clone\<close> and \<open>merge\<close> run: \<open>S\<close> is part of \<open>P\<close>, plain and
  closed, and the heap is separated from \<open>P\<close>.\<close>

definition regions :: "heap \<Rightarrow> nat set \<Rightarrow> nat set \<Rightarrow> bool" where
  "regions h P S = (S \<subseteq> P \<and> (\<forall>a\<in>P. a < length h) \<and> plain_closed h S \<and> separated h P)"

definition cloner_sep :: "cloner \<Rightarrow> options \<Rightarrow> nat set \<Rightarrow> nat set \<Rightarrow> bool" where
  "cloner_sep cl options P S =
     (\<forall>h v s h' s' v'.
        regions h P S \<and> value_ok P S v \<and> seen_out P s \<and> cl h v options s = Returns (h', s', v') \<longrightarrow>
        separated h' P \<and> out_of P v' \<and> seen_out P s')"

definition merger_sep :: "merger \<Rightarrow> nat set \<Rightarrow> nat set \<Rightarrow> bool" where
  "merger_sep mg P S =
     (\<forall>h target source options h' v.
        regions h P S \<and> out_of P target \<and> value_ok P S source \<and>
        mg h target source options = Returns (h', v) \<longrightarrow>
        separated h' P \<and> keeps P h h')"

section \<open>Shallow keys that name properties of the source\<close>

text \<open>
  A key path of one segment names a property of the source itself.  A plain record is an
  object that is not an array, has a built-in prototype or none, and has data
  properties only.  \<open>detach ps ds\<close> is the property list \<open>ps\<close> with the values
  under the keys \<open>ds\<close> replaced by \<open>undefined\<close>, as \<open>internals.store\<close> leaves them.
\<close>

fun single_key :: "chain \<Rightarrow> key option" where
  "single_key (ChainStr [Seg k num]) = Some k"
| "single_key (ChainArr [Seg k num]) = Some k"
| "single_key c = None"

fun is_data :: "property \<Rightarrow> bool" where
  "is_data (Data v e) = True"
| "is_data (Accessor g s e) = False"

definition plain_record :: "obj \<Rightarrow> bool" where
  "plain_record ob =
     (getInternalProto (kind ob) \<noteq> TArray \<and>
      (case proto ob of PObj p \<Rightarrow> False | _ \<Rightarrow> True) \<and>
      list_all (\<lambda>kp. is_data (snd kp)) (props ob))"

fun detached :: "property \<Rightarrow> property" where
  "detached (Data v e) = Data Undefined e"
| "detached (Accessor g s e) = Accessor g s e"

definition detach :: "(key \<times> property) list \<Rightarrow> key list \<Rightarrow> (key \<times> property) list" where
  "detach ps ds = foldr (\<lambda>k qs. upd_prop qs k (detached (the (map_of ps k)))) ds ps"

text \<open>The keys of a storage, and a storage that holds the values which the properties
  \<open>ps\<close> have under its keys.\<close>

definition storage_keys :: "storage \<Rightarrow> key list" where
  "storage_keys st = map (\<lambda>cv. the (single_key (fst cv))) st"

definition stored_from :: "(key \<times> property) list \<Rightarrow> storage \<Rightarrow> bool" where
  "stored_from ps st =
     (distinct (storage_keys st) \<and>
      list_all (\<lambda>cv. single_key (fst cv) \<noteq> None \<and>
                     (\<exists>e. map_of ps (the (single_key (fst cv))) = Some (Data (snd cv) e))) st)"

section \<open>The tally of \<open>contain\<close> under \<open>once\<close> and \<open>only\<close>\<close>



section \<open>Sequencing\<close>

lemma then_do_ReturnsE:
  "then_do m f = Returns y \<Longrightarrow> (\<And>x. m = Returns x \<Longrightarrow> f x = Returns y \<Longrightarrow> P) \<Longrightarrow> P"
  by (cases m) auto

section \<open>The verdict of \<open>contain\<close>\<close>

lemma scan_matches_eq:
  "scan_matches options ms r =
     ((r \<or> (\<exists>m\<in>set ms. m \<noteq> 0)) \<and>
      \<not> (truthy (opt (once options)) \<and> (\<exists>m\<in>set ms. 1 < m)) \<and>
      \<not> (\<not> truthy (opt (part options)) \<and> (\<exists>m\<in>set ms. m = 0)))"
  by (induction ms arbitrary: r) auto

text \<open>
  Claim C6.  The verdict that \<open>contain\<close> computes from the tally \<open>matches\<close> and the
  flag \<open>misses\<close> of unmatched input: when \<open>only\<close> is requested and input was left
  unmatched or \<open>once\<close> is not requested, it is "no input was left unmatched"; otherwise
  it is true exactly when some slot of the tally is not zero, no slot exceeds one if
  \<open>once\<close> is requested, and no slot is zero unless \<open>part\<close> is requested.
\<close>

theorem contain_verdict:
  "verdict options matches misses =
     (if truthy (opt (only options)) \<and> (misses \<or> \<not> truthy (opt (once options)))
      then \<not> misses
      else (\<exists>m\<in>set matches. m \<noteq> 0) \<and>
           \<not> (truthy (opt (once options)) \<and> (\<exists>m\<in>set matches. 1 < m)) \<and>
           \<not> (\<not> truthy (opt (part options)) \<and> (\<exists>m\<in>set matches. m = 0)))"
  by (auto simp add: verdict_def scan_matches_eq)

theorem contain_verdict_witness:
  "verdict (no_options\<lparr>once := Some (Bool True), only := Some (Bool True)\<rparr>) [1, 2] False = False \<and>
   verdict (no_options\<lparr>only := Some (Bool True)\<rparr>) [0, 2] False = True \<and>
   verdict no_options [1, 0] False = False \<and>
   verdict (no_options\<lparr>part := Some (Bool True)\<rparr>) [1, 0] True = True"
  using contain_verdict [of "no_options\<lparr>once := Some (Bool True), only := Some (Bool True)\<rparr>" "[1, 2]" False]
        contain_verdict [of "no_options\<lparr>only := Some (Bool True)\<rparr>" "[0, 2]" False]
        contain_verdict [of no_options "[1, 0]" False]
        contain_verdict [of "no_options\<lparr>part := Some (Bool True)\<rparr>" "[1, 0]" True]
  by (simp add: no_options_def)

section \<open>An empty set of values\<close>

lemma contain_values_empty:
  assumes "(isArray h values \<and> array_length (deref h (addr values)) = 0) \<or>
           (typeof ref = Tobject \<and> \<not> isArray h ref \<and> typeof values = Tobject \<and> values \<noteq> Null \<and>
            \<not> isArray h values \<and> enumerable_keys (deref h (addr values)) = [])"
  shows "\<exists>vp. contain_values h ref values = Returns ([], vp)"
  using assms
  by (auto simp: contain_values_def elements_def isArray_def split: val.splits)

text \<open>
  Claim C10.  When the requested values are empty (an empty array, for any reference;
  or, for a record reference, a record without enumerable keys), \<open>contain\<close> throws,
  whatever the reference is: a string, an array, a record or anything else.  Nothing is
  returned.
\<close>

theorem contain_empty_values:
  assumes "(isArray h values \<and> array_length (deref h (addr values)) = 0) \<or>
           (typeof ref = Tobject \<and> \<not> isArray h ref \<and> typeof values = Tobject \<and> values \<noteq> Null \<and>
            \<not> isArray h values \<and> enumerable_keys (deref h (addr values)) = [])"
  shows "contain deepEqual h ref values options =
           Throws (AssertError (if typeof ref = Tstring \<or> typeof ref = Tobject
                                then ''Values array cannot be empty''
                                else ''Reference must be string or an object''))"
proof -
  from contain_values_empty [OF assms] obtain vp where "contain_values h ref values = Returns ([], vp)"
    by blast
  then show ?thesis by (simp add: contain_def)
qed

theorem contain_empty_values_witness:
  "contain no_deep_equal [array_of []] (Str ''abc'') (Ref 0) no_options =
     Throws (AssertError ''Values array cannot be empty'') \<and>
   contain no_deep_equal [array_of [], array_of [Num 1]] (Ref 1) (Ref 0) no_options =
     Throws (AssertError ''Values array cannot be empty'') \<and>
   contain no_deep_equal [record_of [], record_of [(Name ''a'', Num 1)]] (Ref 1) (Ref 0) no_options =
     Throws (AssertError ''Values array cannot be empty'')"
proof -
  have a: "isArray [array_of []] (Ref 0) \<and> array_length (deref [array_of []] (addr (Ref 0))) = 0"
    by (simp add: isArray_def deref_def array_of_def)
  have b: "isArray [array_of [], array_of [Num 1]] (Ref 0) \<and>
           array_length (deref [array_of [], array_of [Num 1]] (addr (Ref 0))) = 0"
    by (simp add: isArray_def deref_def array_of_def)
  have c: "typeof (Ref 1) = Tobject \<and> \<not> isArray [record_of [], record_of [(Name ''a'', Num 1)]] (Ref 1) \<and>
           typeof (Ref 0) = Tobject \<and> Ref 0 \<noteq> Null \<and>
           \<not> isArray [record_of [], record_of [(Name ''a'', Num 1)]] (Ref 0) \<and>
           enumerable_keys (deref [record_of [], record_of [(Name ''a'', Num 1)]] (addr (Ref 0))) = []"
    by (simp add: isArray_def deref_def record_of_def enumerable_keys_def ownKeys_def
          getOwnPropertyNames_def)
  show ?thesis
    using contain_empty_values [OF disjI1, OF a, of no_deep_equal "Str ''abc''" no_options]
          contain_empty_values [OF disjI1, OF b, of no_deep_equal "Ref 1" no_options]
          contain_empty_values [OF disjI2, OF c, of no_deep_equal no_options]
    by simp
qed

section \<open>What \<open>merge\<close> returns\<close>



section \<open>\<open>clone\<close> changes no object that exists\<close>

lemma unchanged_refl [simp]: "unchanged_below k h h"
  by (simp add: unchanged_below_def)

lemma unchanged_trans:
  "unchanged_below k h h1 \<Longrightarrow> unchanged_below k h1 h2 \<Longrightarrow> unchanged_below k h h2"
  by (auto simp: unchanged_below_def)

lemma unchanged_mono: "unchanged_below k h h' \<Longrightarrow> k' \<le> k \<Longrightarrow> unchanged_below k' h h'"
  by (auto simp: unchanged_below_def)

lemma unchanged_update: "k \<le> b \<Longrightarrow> unchanged_below k h (h[b := x])"
  by (auto simp: unchanged_below_def)

lemma unchanged_alloc: "unchanged_below k h (fst (alloc h ob))"
  by (auto simp: unchanged_below_def alloc_def nth_append)

lemma unchanged_set_add: "k \<le> b \<Longrightarrow> unchanged_below k h (set_add h b v)"
  by (auto simp: set_add_def unchanged_update split: kind.splits)

lemma unchanged_map_put: "k \<le> b \<Longrightarrow> unchanged_below k h (map_put h b x v)"
  by (auto simp: map_put_def unchanged_update split: kind.splits)

lemma cloner_frameD:
  "cloner_frame cl options \<Longrightarrow> cl h v options s = Returns (h', s', v') \<Longrightarrow> unchanged_below k h h'"
  unfolding cloner_frame_def unchanged_below_def by blast

lemma clone_set_frame:
  assumes "cloner_frame cl options" "k \<le> newObj"
  shows "clone_set cl h newObj options seen vs = Returns (h', seen') \<Longrightarrow> unchanged_below k h h'"
proof (induction vs arbitrary: h seen)
  case Nil
  then show ?case by simp
next
  case (Cons v vs)
  from Cons.prems obtain h1 s1 v1 where
    c: "cl h v options seen = Returns (h1, s1, v1)" and
    r: "clone_set cl (set_add h1 newObj v1) newObj options s1 vs = Returns (h', seen')"
    by (auto elim!: then_do_ReturnsE)
  have "unchanged_below k h h1" using cloner_frameD [OF assms(1) c] .
  moreover have "unchanged_below k h1 (set_add h1 newObj v1)" using assms(2) by (rule unchanged_set_add)
  moreover have "unchanged_below k (set_add h1 newObj v1) h'" using Cons.IH [OF r] .
  ultimately show ?case by (blast intro: unchanged_trans)
qed

lemma clone_map_frame:
  assumes "cloner_frame cl options" "k \<le> newObj"
  shows "clone_map cl h newObj options seen es = Returns (h', seen') \<Longrightarrow> unchanged_below k h h'"
proof (induction es arbitrary: h seen)
  case Nil
  then show ?case by simp
next
  case (Cons e es)
  obtain x v where e: "e = (x, v)" by (cases e)
  from Cons.prems e obtain h1 s1 v1 where
    c: "cl h v options seen = Returns (h1, s1, v1)" and
    r: "clone_map cl (map_put h1 newObj x v1) newObj options s1 es = Returns (h', seen')"
    by (auto elim!: then_do_ReturnsE)
  have "unchanged_below k h h1" using cloner_frameD [OF assms(1) c] .
  moreover have "unchanged_below k h1 (map_put h1 newObj x v1)" using assms(2) by (rule unchanged_map_put)
  moreover have "unchanged_below k (map_put h1 newObj x v1) h'" using Cons.IH [OF r] .
  ultimately show ?case by (blast intro: unchanged_trans)
qed

lemma clone_keys_frame:
  assumes "cloner_frame cl options" "k \<le> newObj"
  shows "clone_keys cl h a newObj options seen ks = Returns (h', seen') \<Longrightarrow> unchanged_below k h h'"
proof (induction ks arbitrary: h seen)
  case Nil
  then show ?case by simp
next
  case (Cons key ks)
  show ?case
  proof (cases "getInternalProto (kind (deref h a)) = TArray \<and> key = Name ''length''")
    case True
    with Cons show ?thesis by simp
  next
    case nl: False
    show ?thesis
    proof (cases "is_accessor (own_prop (deref h a) key)")
      case True
      with nl Cons.prems have
        r: "clone_keys cl (h[newObj := define_own (deref h newObj) key (the (own_prop (deref h a) key))])
              a newObj options seen ks = Returns (h', seen')"
        by (auto split: if_splits)
      from Cons.IH [OF r] unchanged_update [OF assms(2)] show ?thesis
        by (blast intro: unchanged_trans)
    next
      case False
      with nl Cons.prems obtain h1 s1 v1 where
        c: "cl h (obj_get h a key) options seen = Returns (h1, s1, v1)" and
        r: "clone_keys cl (h1[newObj := define_own (deref h1 newObj) key
                 (Data v1 (descriptor_enumerable (own_prop (deref h a) key)))])
              a newObj options s1 ks = Returns (h', seen')"
        by (auto elim!: then_do_ReturnsE split: if_splits)
      from cloner_frameD [OF assms(1) c] Cons.IH [OF r] unchanged_update [OF assms(2)] show ?thesis
        by (blast intro: unchanged_trans)
    qed
  qed
qed

lemma clone_fill_frame:
  assumes "cloner_frame cl options" "k \<le> newObj"
    and "clone_fill cl h a newObj options seen = Returns (h', seen', v')"
  shows "unchanged_below k h h'"
proof -
  from assms(3) obtain h2 s2 h3 s3 h4 s4 where
    a: "clone_set cl h newObj options (seen_set seen a newObj) (set_values (kind (deref h a))) = Returns (h2, s2)" and
    b: "clone_map cl h2 newObj options s2 (map_entries (kind (deref h2 a))) = Returns (h3, s3)" and
    c: "clone_keys cl h3 a newObj options s3 (keys (deref h3 a) options) = Returns (h4, s4)" and
    d: "h' = h4 \<or> h' = h4[newObj := set_length (deref h4 newObj) (array_length (deref h4 a))]"
    unfolding clone_fill_def by (auto elim!: then_do_ReturnsE split: if_splits)
  have "unchanged_below k h4 h'" using d unchanged_update [OF assms(2)] by auto
  with clone_set_frame [OF assms(1,2) a] clone_map_frame [OF assms(1,2) b]
       clone_keys_frame [OF assms(1,2) c]
  show ?thesis by (blast intro: unchanged_trans)
qed

lemma clone_object_frame:
  assumes "cloner_frame cl options"
    and "clone_object cl h obj options seen = Returns (h', seen', v')"
  shows "unchanged_below (length h) h h'"
proof (cases "new_target h (addr obj) options")
  case (Copied ob)
  with assms(2) show ?thesis by (auto simp: clone_object_def unchanged_alloc)
next
  case Same
  with assms(2) show ?thesis by (auto simp: clone_object_def)
next
  case (Fill ob)
  with assms(2) have
    f: "clone_fill cl (fst (alloc h ob)) (addr obj) (snd (alloc h ob)) options seen = Returns (h', seen', v')"
    by (simp add: clone_object_def)
  have "length h \<le> snd (alloc h ob)" by (simp add: alloc_def)
  from clone_fill_frame [OF assms(1) this f] unchanged_alloc [of "length h" h ob]
  show ?thesis by (blast intro: unchanged_trans)
next
  case (Fails e)
  with assms(2) show ?thesis by (auto simp: clone_object_def)
qed

lemma identity_clone_frame: "cloner_frame identity_clone options"
  by (simp add: cloner_frame_def identity_clone_def)

lemma clone_frame:
  "shallow options = ShFalsy \<or> shallow options = ShTrue \<Longrightarrow> cloner_frame (clone n) options"
proof (induction n)
  case 0
  then show ?case by (simp add: cloner_frame_def)
next
  case (Suc n)
  show ?case
    unfolding cloner_frame_def
  proof (intro allI impI)
    fix h v s h' s' v'
    assume r: "clone (Suc n) h v options s = Returns (h', s', v')"
    show "unchanged_below (length h) h h'"
    proof (cases "typeof v \<noteq> Tobject \<or> v = Null")
      case True
      with r show ?thesis by auto
    next
      case obj: False
      show ?thesis
      proof (cases "shallow options = ShTrue")
        case True
        with obj r have "clone_object identity_clone h v options s = Returns (h', s', v')" by simp
        from clone_object_frame [OF identity_clone_frame this] show ?thesis .
      next
        case False
        with Suc.prems have f: "shallow options = ShFalsy" by simp
        show ?thesis
        proof (cases "map_of (seen_or_new s) (addr v)")
          case None
          with obj f r have
            "clone_object (clone n) h v options (Some (seen_or_new s)) = Returns (h', s', v')" by simp
          from clone_object_frame [OF Suc.IH [OF Suc.prems] this] show ?thesis .
        next
          case (Some t)
          with obj f r show ?thesis by simp
        qed
      qed
    qed
  qed
qed

section \<open>The visited map of \<open>clone\<close>\<close>

lemma seen_or_new_simps [simp]: "seen_or_new (Some m) = m" "seen_or_new None = []"
  by (simp_all add: seen_or_new_def)

lemma seen_grows_refl [simp]: "seen_grows s s"
  by (simp add: seen_grows_def)

lemma seen_grows_trans: "seen_grows s s1 \<Longrightarrow> seen_grows s1 s2 \<Longrightarrow> seen_grows s s2"
  unfolding seen_grows_def by (rule map_le_trans)

lemma seen_grows_new [simp]: "seen_grows s (Some (seen_or_new s))"
  by (simp add: seen_grows_def seen_or_new_def)

lemma seen_grows_set:
  "map_of (seen_or_new s) a = None \<Longrightarrow> seen_grows s (seen_set s a b)"
  by (cases s) (auto simp: seen_grows_def seen_or_new_def map_le_def)

lemma cloner_seenD:
  "cloner_seen cl options \<Longrightarrow> cl h v options s = Returns (h', s', v') \<Longrightarrow> seen_grows s s'"
  unfolding cloner_seen_def by blast

lemma clone_set_seen:
  assumes "cloner_seen cl options"
  shows "clone_set cl h newObj options seen vs = Returns (h', seen') \<Longrightarrow> seen_grows seen seen'"
proof (induction vs arbitrary: h seen)
  case Nil
  then show ?case by simp
next
  case (Cons v vs)
  from Cons.prems obtain h1 s1 v1 where
    c: "cl h v options seen = Returns (h1, s1, v1)" and
    r: "clone_set cl (set_add h1 newObj v1) newObj options s1 vs = Returns (h', seen')"
    by (auto elim!: then_do_ReturnsE)
  from cloner_seenD [OF assms c] Cons.IH [OF r] show ?case by (rule seen_grows_trans)
qed

lemma clone_map_seen:
  assumes "cloner_seen cl options"
  shows "clone_map cl h newObj options seen es = Returns (h', seen') \<Longrightarrow> seen_grows seen seen'"
proof (induction es arbitrary: h seen)
  case Nil
  then show ?case by simp
next
  case (Cons e es)
  obtain x v where e: "e = (x, v)" by (cases e)
  from Cons.prems e obtain h1 s1 v1 where
    c: "cl h v options seen = Returns (h1, s1, v1)" and
    r: "clone_map cl (map_put h1 newObj x v1) newObj options s1 es = Returns (h', seen')"
    by (auto elim!: then_do_ReturnsE)
  from cloner_seenD [OF assms c] Cons.IH [OF r] show ?case by (rule seen_grows_trans)
qed

lemma clone_keys_seen:
  assumes "cloner_seen cl options"
  shows "clone_keys cl h a newObj options seen ks = Returns (h', seen') \<Longrightarrow> seen_grows seen seen'"
proof (induction ks arbitrary: h seen)
  case Nil
  then show ?case by simp
next
  case (Cons key ks)
  show ?case
  proof (cases "getInternalProto (kind (deref h a)) = TArray \<and> key = Name ''length''")
    case True
    with Cons show ?thesis by simp
  next
    case nl: False
    show ?thesis
    proof (cases "is_accessor (own_prop (deref h a) key)")
      case True
      with nl Cons.prems have
        r: "clone_keys cl (h[newObj := define_own (deref h newObj) key (the (own_prop (deref h a) key))])
              a newObj options seen ks = Returns (h', seen')"
        by (auto split: if_splits)
      from Cons.IH [OF r] show ?thesis .
    next
      case False
      with nl Cons.prems obtain h1 s1 v1 where
        c: "cl h (obj_get h a key) options seen = Returns (h1, s1, v1)" and
        r: "clone_keys cl (h1[newObj := define_own (deref h1 newObj) key
                 (Data v1 (descriptor_enumerable (own_prop (deref h a) key)))])
              a newObj options s1 ks = Returns (h', seen')"
        by (auto elim!: then_do_ReturnsE split: if_splits)
      from cloner_seenD [OF assms c] Cons.IH [OF r] show ?thesis by (rule seen_grows_trans)
    qed
  qed
qed

lemma clone_fill_seen:
  assumes "cloner_seen cl options"
    and "clone_fill cl h a newObj options seen = Returns (h', seen', v')"
  shows "seen_grows (seen_set seen a newObj) seen' \<and> v' = Ref newObj"
proof -
  from assms(2) obtain h2 s2 h3 s3 h4 where
    a: "clone_set cl h newObj options (seen_set seen a newObj) (set_values (kind (deref h a))) = Returns (h2, s2)" and
    b: "clone_map cl h2 newObj options s2 (map_entries (kind (deref h2 a))) = Returns (h3, s3)" and
    c: "clone_keys cl h3 a newObj options s3 (keys (deref h3 a) options) = Returns (h4, seen')" and
    d: "v' = Ref newObj"
    unfolding clone_fill_def by (auto elim!: then_do_ReturnsE split: if_splits)
  from clone_set_seen [OF assms(1) a] clone_map_seen [OF assms(1) b] clone_keys_seen [OF assms(1) c] d
  show ?thesis by (blast intro: seen_grows_trans)
qed

lemma clone_object_seen:
  assumes "cloner_seen cl options" "map_of m (addr obj) = None"
    and "clone_object cl h obj options (Some m) = Returns (h', seen', v')"
  shows "seen_grows (Some m) seen' \<and>
         (tracked h (addr obj) options \<longrightarrow> (\<exists>t. v' = Ref t \<and> map_of (seen_or_new seen') (addr obj) = Some t))"
proof (cases "new_target h (addr obj) options")
  case (Fill ob)
  with assms(3) have
    f: "clone_fill cl (fst (alloc h ob)) (addr obj) (snd (alloc h ob)) options (Some m) = Returns (h', seen', v')"
    by (simp add: clone_object_def)
  from clone_fill_seen [OF assms(1) f]
  have g: "seen_grows (Some ((addr obj, snd (alloc h ob)) # m)) seen'" and v: "v' = Ref (snd (alloc h ob))"
    by simp_all
  have "seen_grows (Some m) (Some ((addr obj, snd (alloc h ob)) # m))"
    using seen_grows_set [of "Some m" "addr obj"] assms(2) by (simp add: seen_or_new_def)
  with g have "seen_grows (Some m) seen'" by (blast intro: seen_grows_trans)
  moreover from g have "map_of (seen_or_new seen') (addr obj) = Some (snd (alloc h ob))"
    by (auto simp: seen_grows_def seen_or_new_def map_le_def dom_def split: if_splits)
  ultimately show ?thesis using v by simp
qed (use assms(3) in \<open>auto simp: clone_object_def tracked_def\<close>)

lemma clone_seen:
  "shallow options = ShFalsy \<Longrightarrow> cloner_seen (clone n) options"
proof (induction n)
  case 0
  then show ?case by (simp add: cloner_seen_def)
next
  case (Suc n)
  show ?case
    unfolding cloner_seen_def
  proof (intro allI impI)
    fix h v s h' s' v'
    assume r: "clone (Suc n) h v options s = Returns (h', s', v')"
    show "seen_grows s s'"
    proof (cases "typeof v \<noteq> Tobject \<or> v = Null")
      case True
      with r show ?thesis by auto
    next
      case obj: False
      show ?thesis
      proof (cases "map_of (seen_or_new s) (addr v)")
        case None
        with obj Suc.prems r have
          c: "clone_object (clone n) h v options (Some (seen_or_new s)) = Returns (h', s', v')" by simp
        from clone_object_seen [OF Suc.IH [OF Suc.prems] None c]
        have "seen_grows (Some (seen_or_new s)) s'" by simp
        with seen_grows_new show ?thesis by (rule seen_grows_trans)
      next
        case (Some t)
        with obj Suc.prems r show ?thesis by auto
      qed
    qed
  qed
qed

lemma clone_registers:
  assumes "shallow options = ShFalsy" "tracked h a options"
    and "clone n h (Ref a) options s = Returns (h', s', v')"
  shows "\<exists>t. v' = Ref t \<and> map_of (seen_or_new s') a = Some t"
proof (cases n)
  case 0
  with assms(3) show ?thesis by simp
next
  case (Suc m)
  show ?thesis
  proof (cases "map_of (seen_or_new s) a")
    case None
    with Suc assms(1,3) have
      c: "clone_object (clone m) h (Ref a) options (Some (seen_or_new s)) = Returns (h', s', v')" by simp
    from clone_object_seen [OF clone_seen [OF assms(1)] _ c] None assms(2) show ?thesis by simp
  next
    case (Some t)
    with Suc assms(1,3) show ?thesis by auto
  qed
qed


section \<open>Immutable objects\<close>

text \<open>
  Claim C2, as amended.  An object that is not an array, a buffer, a date or a pattern
  and whose prototype declares \<open>isImmutable\<close> is returned by \<open>clone\<close> as it is, with
  the heap unchanged, whenever \<open>options.prototype\<close> is not \<open>false\<close> and
  \<open>options.shallow\<close> is falsy or \<open>true\<close>.
\<close>

theorem clone_immutable:
  assumes "immutable h a"
    and "getInternalProto (kind (deref h a)) \<notin> {TArray, TBuffer, TDate, TRegex}"
    and "opt (prototype options) \<noteq> Bool False"
    and "shallow options = ShFalsy \<or> shallow options = ShTrue"
  shows "\<exists>seen'. clone (Suc n) h (Ref a) options None = Returns (h, seen', Ref a)"
proof -
  from assms(1-3) have "new_target h a options = Same"
    by (auto simp: new_target_def immutable_def Let_def split: kind.splits)
  with assms(4) show ?thesis
    by (auto simp: clone_object_def)
qed

theorem clone_immutable_witness:
  "\<exists>seen'. clone (Suc 0) immutable_record (Ref 1) no_options None = Returns (immutable_record, seen', Ref 1)"
proof -
  have "immutable immutable_record 1" by code_simp
  moreover have "getInternalProto (kind (deref immutable_record 1)) \<notin> {TArray, TBuffer, TDate, TRegex}"
    by code_simp
  moreover have "opt (prototype no_options) \<noteq> Bool False" by code_simp
  moreover have "shallow no_options = ShFalsy \<or> shallow no_options = ShTrue" by code_simp
  ultimately show ?thesis by (rule clone_immutable)
qed

text \<open>The counterexample to C2 as it is stated: with \<open>prototype: false\<close> an immutable
  record is copied; an immutable array is copied; and with a list of key paths the
  detach step runs first, and here it throws.\<close>

theorem clone_immutable_copied:
  "clone 2 immutable_record (Ref 1) (no_options\<lparr>prototype := Some (Bool False)\<rparr>) None =
     Returns (immutable_record @ [record_of [(Name ''x'', Num 1)]], Some [(1, 2)], Ref 2) \<and>
   clone 2 immutable_array (Ref 1) no_options None =
     Returns (immutable_array @ [array_of [Num 1]], Some [(1, 2)], Ref 2) \<and>
   clone 2 immutable_with_function (Ref 1)
     (no_options\<lparr>shallow := ShKeys [ChainStr [Seg (Name ''f'') None, Seg (Name ''x'') None]]\<rparr>) None =
     Throws (AssertError ''Invalid segment'')"
  by code_simp

section \<open>\<open>applyToDefaults\<close> with shallow keys\<close>

text \<open>
  Claim C3.  With \<open>nullOverride: true\<close>, \<open>applyToDefaults\<close> lets the \<open>null\<close> of the
  source override the default: \<open>x\<close> of the result is \<open>null\<close>.  With the same options
  and the key \<open>y\<close> declared shallow, \<open>nullOverride\<close> is not passed on to \<open>merge\<close>:
  \<open>x\<close> of the result is still \<open>1\<close>.
\<close>

theorem applyToDefaults_shallow_ignores_nullOverride:
  "applyToDefaults 3 defaults_heap (Ref 0) (Ref 2) (no_options\<lparr>nullOverride := Some (Bool True)\<rparr>) =
     Returns (defaults_heap @
              [record_of [(Name ''x'', Null), (Name ''y'', Ref 5)], record_of [(Name ''z'', Num 2)]],
              Ref 4) \<and>
   applyToDefaults 3 defaults_heap (Ref 0) (Ref 2) (shallow_y\<lparr>nullOverride := Some (Bool True)\<rparr>) =
     Returns (defaults_heap @ [record_of [(Name ''x'', Num 1), (Name ''y'', Ref 3)]], Ref 4)"
  by code_simp

theorem applyToDefaults_shallow_ignores_nullOverride_witness:
  "applyToDefaults 3 defaults_heap (Ref 0) (Ref 2) (shallow_y\<lparr>nullOverride := Some (Bool True)\<rparr>) =
     Returns (defaults_heap @ [record_of [(Name ''x'', Num 1), (Name ''y'', Ref 3)]], Ref 4)"
  using applyToDefaults_shallow_ignores_nullOverride by (rule conjunct2)

section \<open>Primitive values in \<open>merge\<close>\<close>

lemma idx_keys_set: "i \<in> set (idx_keys ps) \<longleftrightarrow> Idx i \<in> fst ` set ps"
  by (induction ps rule: idx_keys.induct) (auto simp: image_iff)

lemma keys_cover:
  assumes "k \<in> fst ` set (props ob)" "opt (symbols options) \<noteq> Bool False \<or> \<not> is_symbol k"
  shows "k \<in> set (keys ob options)"
proof (cases k)
  case (Idx i)
  with assms(1) have "i \<in> set (idx_keys (props ob))" by (simp add: idx_keys_set)
  with Idx show ?thesis by (simp add: keys_def ownKeys_def getOwnPropertyNames_def)
next
  case (Name s)
  with assms(1) show ?thesis by (auto simp: keys_def ownKeys_def getOwnPropertyNames_def)
next
  case (Symk n)
  with assms show ?thesis by (auto simp: keys_def ownKeys_def getOwnPropertyNames_def)
qed

lemma map_of_upd_prop: "map_of (upd_prop ps k p) = (map_of ps)(k \<mapsto> p)"
  by (induction ps) (auto simp: fun_eq_iff)

lemma own_prop_define_own:
  "k \<noteq> Name ''length'' \<Longrightarrow> own_prop (define_own ob k p) k = Some p"
  by (auto simp: own_prop_def define_own_def map_of_upd_prop Let_def split: kind.splits key.splits)

lemma find_prop_own:
  "own_prop (deref h a) k = Some p \<Longrightarrow> find_prop (Suc n) h a k = Some p"
  by simp

lemma deref_update: "a < length h \<Longrightarrow> deref (h[a := ob]) a = ob"
  by (simp add: deref_def)


section \<open>Separation: what \<open>clone\<close> and \<open>merge\<close> write to\<close>

subsection \<open>Reading and writing in a separated heap\<close>

lemma out_of_simps [simp]:
  "out_of P (Ref u) = (u \<notin> P)" "out_of P Undefined" "out_of P Null" "out_of P (Bool b)"
  "out_of P (Num n)" "out_of P (Str s)" "out_of P (Sym m)" "out_of P (Fn f)" "out_of P (Native g)"
  by (simp_all add: out_of_def)

lemma inside_simps [simp]:
  "inside S (Ref u) = (u \<in> S)" "inside S Undefined" "inside S Null" "inside S (Bool b)"
  "inside S (Num n)" "inside S (Str s)" "inside S (Sym m)" "inside S (Fn f)" "inside S (Native g)"
  by (simp_all add: inside_def)

lemma value_ok_simps [simp]:
  "value_ok P S (Ref u) = (u \<in> S \<or> u \<notin> P)" "value_ok P S Undefined" "value_ok P S Null"
  "value_ok P S (Bool b)" "value_ok P S (Num n)" "value_ok P S (Str s)" "value_ok P S (Sym m)"
  "value_ok P S (Fn f)" "value_ok P S (Native g)"
  by (simp_all add: value_ok_def)

lemma value_ok_out: "out_of P v \<Longrightarrow> value_ok P S v"
  by (cases v) auto

lemma value_ok_in: "inside S v \<Longrightarrow> value_ok P S v"
  by (cases v) auto

lemma refs_out_empty [simp]: "refs_out P empty_obj"
  by (simp add: refs_out_def empty_obj_def kind_out_def)

lemma separated_deref: "separated h P \<Longrightarrow> a \<notin> P \<Longrightarrow> refs_out P (deref h a)"
  by (simp add: separated_def deref_def)

lemma own_prop_out:
  "refs_out P ob \<Longrightarrow> own_prop ob k = Some p \<Longrightarrow> prop_out P p"
  by (auto simp: own_prop_def refs_out_def list_all_iff prop_out_def
           split: kind.splits if_splits dest!: map_of_SomeD)

lemma builtin_prop_read:
  "builtin_prop t k = Some p \<Longrightarrow> (\<exists>f. read_prop p = Native f) \<or> read_prop p = Undefined \<or> read_prop p = Num 0"
  by (auto simp: builtin_prop_def native_member_def split: key.splits if_splits)

lemma builtin_prop_out: "builtin_prop t k = Some p \<Longrightarrow> prop_out P p"
  by (auto simp: builtin_prop_def native_member_def prop_out_def split: key.splits if_splits)

lemma find_prop_out:
  "separated h P \<Longrightarrow> a \<notin> P \<Longrightarrow> find_prop n h a k = Some p \<Longrightarrow> prop_out P p"
proof (induction n arbitrary: a)
  case 0
  then show ?case by simp
next
  case (Suc n)
  have r: "refs_out P (deref h a)" using Suc.prems(1,2) by (rule separated_deref)
  show ?case
  proof (cases "own_prop (deref h a) k")
    case (Some q)
    with Suc.prems(3) r show ?thesis by (auto dest: own_prop_out)
  next
    case None
    show ?thesis
    proof (cases "proto (deref h a)")
      case PNull
      with None Suc.prems(3) show ?thesis by simp
    next
      case (PBuiltin t)
      with None Suc.prems(3) show ?thesis by (simp add: builtin_prop_out)
    next
      case (PObj p')
      with None Suc.prems(3) have f: "find_prop n h p' k = Some p" by simp
      from PObj r have "p' \<notin> P" by (simp add: refs_out_def)
      from Suc.IH [OF Suc.prems(1) this f] show ?thesis .
    qed
  qed
qed

lemma read_prop_out: "prop_out P p \<Longrightarrow> out_of P (read_prop p)"
  by (cases p) (auto simp: prop_out_def split: option.splits)

lemma obj_get_out: "separated h P \<Longrightarrow> a \<notin> P \<Longrightarrow> out_of P (obj_get h a k)"
proof (cases "find_prop (Suc (length h)) h a k")
  case None
  then show ?thesis by (simp add: obj_get_def)
next
  case (Some p)
  assume "separated h P" "a \<notin> P"
  from find_prop_out [OF this Some] have "out_of P (read_prop p)" by (rule read_prop_out)
  with Some show ?thesis by (simp add: obj_get_def)
qed

lemma plain_closed_deref: "plain_closed h S \<Longrightarrow> a \<in> S \<Longrightarrow> plain_obj S (deref h a)"
  by (simp add: plain_closed_def deref_def)

lemma map_of_plain:
  assumes "plain_obj S ob" "map_of (props ob) k = Some p"
  shows "\<exists>v e. p = Data v e \<and> inside S v"
proof -
  from assms(2) have "(k, p) \<in> set (props ob)" by (rule map_of_SomeD)
  with assms(1) have "plain_prop S p" by (auto simp: plain_obj_def list_all_iff)
  then show ?thesis by (cases p) (simp_all add: plain_prop_def)
qed

lemma own_prop_plain:
  "plain_obj S ob \<Longrightarrow> own_prop ob k = Some p \<Longrightarrow> \<exists>v e. p = Data v e \<and> inside S v"
  by (auto simp: own_prop_def split: kind.splits if_splits dest: map_of_plain)

lemma find_prop_plain:
  "plain_obj S (deref h a) \<Longrightarrow>
   find_prop (Suc n) h a k =
     (case own_prop (deref h a) k of
        Some p \<Rightarrow> Some p
      | None \<Rightarrow> (case proto (deref h a) of PBuiltin t \<Rightarrow> builtin_prop t k | _ \<Rightarrow> None))"
  by (auto simp: plain_obj_def split: option.splits protoref.splits)

lemma obj_get_in:
  assumes "plain_closed h S" "a \<in> S"
  shows "inside S (obj_get h a k)"
proof -
  have p: "plain_obj S (deref h a)" using assms by (rule plain_closed_deref)
  note f = find_prop_plain [OF p, of "length h" k]
  show ?thesis
  proof (cases "own_prop (deref h a) k")
    case None
    show ?thesis
    proof (cases "find_prop (Suc (length h)) h a k")
      case None
      then show ?thesis by (simp add: obj_get_def del: find_prop.simps)
    next
      case (Some q)
      with f \<open>own_prop (deref h a) k = None\<close> obtain t where "builtin_prop t k = Some q"
        by (auto split: protoref.splits)
      from builtin_prop_read [OF this] Some show ?thesis
        by (auto simp: obj_get_def simp del: find_prop.simps)
    qed
  next
    case (Some q)
    from own_prop_plain [OF p Some] obtain v e where "q = Data v e" "inside S v" by blast
    with f Some show ?thesis by (simp add: obj_get_def del: find_prop.simps)
  qed
qed

lemma obj_get_ok:
  "regions h P S \<Longrightarrow> a \<in> S \<or> a \<notin> P \<Longrightarrow> value_ok P S (obj_get h a k)"
  by (auto simp: regions_def intro: value_ok_in value_ok_out obj_get_in obj_get_out)

lemma list_all_upd_prop:
  "list_all Q ps \<Longrightarrow> Q (k, p) \<Longrightarrow> list_all Q (upd_prop ps k p)"
  by (induction ps) auto

lemma refs_out_define_own:
  "refs_out P ob \<Longrightarrow> prop_out P p \<Longrightarrow> refs_out P (define_own ob k p)"
  by (auto simp: refs_out_def define_own_def Let_def kind_out_def list_all_upd_prop
           split: kind.splits key.splits)

lemma refs_out_set_length: "refs_out P ob \<Longrightarrow> refs_out P (set_length ob n)"
  by (auto simp: refs_out_def set_length_def kind_out_def list_all_iff)

lemma separated_update:
  assumes "separated h P" "b \<notin> P \<Longrightarrow> refs_out P ob"
  shows "separated (h[b := ob]) P"
  unfolding separated_def
proof (intro allI impI)
  fix a assume a: "a < length (h[b := ob])" "a \<notin> P"
  show "refs_out P (h[b := ob] ! a)"
  proof (cases "a = b")
    case True
    with a assms(2) show ?thesis by simp
  next
    case False
    with a assms(1) show ?thesis by (simp add: separated_def)
  qed
qed

lemma separated_alloc:
  "separated h P \<Longrightarrow> refs_out P ob \<Longrightarrow> separated (fst (alloc h ob)) P"
  by (auto simp: separated_def alloc_def nth_append)

lemma list_all_map_set:
  "list_all (\<lambda>e. out_of P (snd e)) es \<Longrightarrow> out_of P v \<Longrightarrow> list_all (\<lambda>e. out_of P (snd e)) (map_set es k v)"
  by (induction es) auto

lemma separated_set_add:
  "separated h P \<Longrightarrow> out_of P v \<Longrightarrow> separated (set_add h b v) P"
proof (cases "kind (deref h b)")
  case (KSet vs)
  assume s: "separated h P" and v: "out_of P v"
  have "b \<notin> P \<Longrightarrow> refs_out P ((deref h b)\<lparr>kind := KSet (if v \<in> set vs then vs else vs @ [v])\<rparr>)"
    using separated_deref [OF s, of b] KSet v by (auto simp: refs_out_def kind_out_def)
  with s KSet show ?thesis by (simp add: set_add_def separated_update)
qed (simp_all add: set_add_def)

lemma separated_map_put:
  "separated h P \<Longrightarrow> out_of P v \<Longrightarrow> separated (map_put h b k v) P"
proof (cases "kind (deref h b)")
  case (KMap es)
  assume s: "separated h P" and v: "out_of P v"
  have "b \<notin> P \<Longrightarrow> refs_out P ((deref h b)\<lparr>kind := KMap (map_set es k v)\<rparr>)"
    using separated_deref [OF s, of b] KMap v by (auto simp: refs_out_def kind_out_def list_all_map_set)
  with s KMap show ?thesis by (simp add: map_put_def separated_update)
qed (simp_all add: map_put_def)

lemma separated_define:
  "separated h P \<Longrightarrow> prop_out P p \<Longrightarrow> separated (h[b := define_own (deref h b) k p]) P"
  by (auto intro!: separated_update refs_out_define_own separated_deref)

lemma separated_obj_set:
  assumes "separated h P" "out_of P x" "obj_set h t k x = Returns h'"
  shows "separated h' P"
proof -
  have d: "prop_out P (Data x e)" for e using assms(2) by (simp add: prop_out_def)
  have "separated (h[t := set_length (deref h t) n]) P" for n
    using assms(1) by (auto intro!: separated_update refs_out_set_length separated_deref)
  with assms d show ?thesis
    by (auto simp: obj_set_def Let_def separated_define elim!: then_do_ReturnsE
             split: if_splits option.splits property.splits)
qed

lemma separated_push: "separated h P \<Longrightarrow> out_of P x \<Longrightarrow> separated (push h t x) P"
  by (simp add: push_def separated_define prop_out_def)

lemma keeps_refl [simp]: "keeps P h h"
  by (simp add: keeps_def)

lemma keeps_trans: "keeps P h h1 \<Longrightarrow> keeps P h1 h2 \<Longrightarrow> keeps P h h2"
  by (auto simp: keeps_def)

lemma keeps_update: "b \<notin> P \<Longrightarrow> keeps P h (h[b := ob])"
  by (auto simp: keeps_def intro!: nth_list_update_neq)

lemma keeps_unchanged: "unchanged_below k h h' \<Longrightarrow> \<forall>a\<in>P. a < k \<Longrightarrow> keeps P h h'"
  by (auto simp: keeps_def unchanged_below_def)

lemma keeps_set_add: "b \<notin> P \<Longrightarrow> keeps P h (set_add h b v)"
  by (auto simp: set_add_def keeps_update split: kind.splits)

lemma keeps_map_put: "b \<notin> P \<Longrightarrow> keeps P h (map_put h b k v)"
  by (auto simp: map_put_def keeps_update split: kind.splits)

lemma keeps_obj_set: "t \<notin> P \<Longrightarrow> obj_set h t k x = Returns h' \<Longrightarrow> keeps P h h'"
  by (auto simp: obj_set_def Let_def keeps_update elim!: then_do_ReturnsE
           split: if_splits option.splits property.splits)

lemma keeps_push: "t \<notin> P \<Longrightarrow> keeps P h (push h t x)"
  by (simp add: push_def keeps_update)

lemma regions_step:
  "regions h P S \<Longrightarrow> keeps P h h' \<Longrightarrow> separated h' P \<Longrightarrow> regions h' P S"
  unfolding regions_def plain_closed_def keeps_def
  by (metis less_le_trans subsetD)

lemma regions_bound: "regions h P S \<Longrightarrow> a \<in> P \<Longrightarrow> a < length h"
  by (simp add: regions_def)

subsection \<open>\<open>clone\<close> keeps the heap separated\<close>

lemma cloner_sepD:
  "cloner_sep cl options P S \<Longrightarrow> regions h P S \<Longrightarrow> value_ok P S v \<Longrightarrow> seen_out P s \<Longrightarrow>
   cl h v options s = Returns (h', s', v') \<Longrightarrow> separated h' P \<and> out_of P v' \<and> seen_out P s'"
  unfolding cloner_sep_def by blast

lemma cloner_keeps:
  "cloner_frame cl options \<Longrightarrow> regions h P S \<Longrightarrow> cl h v options s = Returns (h', s', v') \<Longrightarrow>
   keeps P h h'"
  unfolding cloner_frame_def by (blast intro: keeps_unchanged regions_bound)

text \<open>One call of the cloner inside a loop.\<close>

lemma cloner_call:
  assumes "cloner_frame cl options" "cloner_sep cl options P S"
    and "regions h P S" "value_ok P S v" "seen_out P s" "cl h v options s = Returns (h', s', v')"
  shows "regions h' P S \<and> keeps P h h' \<and> out_of P v' \<and> seen_out P s'"
proof -
  from cloner_sepD [OF assms(2-6)] have a: "separated h' P" "out_of P v'" "seen_out P s'" by blast+
  from cloner_keeps [OF assms(1,3,6)] have k: "keeps P h h'" .
  from regions_step [OF assms(3) k a(1)] a k show ?thesis by blast
qed

lemma regions_define:
  assumes "regions h P S" "b \<notin> P" "prop_out P p"
  shows "regions (h[b := define_own (deref h b) k p]) P S \<and> keeps P h (h[b := define_own (deref h b) k p])"
proof -
  from assms(1) have "separated h P" by (simp add: regions_def)
  from separated_define [OF this assms(3)] keeps_update [OF assms(2)] regions_step [OF assms(1)]
  show ?thesis by blast
qed

lemma clone_keys_sep:
  assumes fr: "cloner_frame cl options" and sp: "cloner_sep cl options P S"
    and nP: "newObj \<notin> P" and a: "a \<in> S \<or> a \<notin> P"
  shows "regions h P S \<Longrightarrow> seen_out P seen \<Longrightarrow>
         clone_keys cl h a newObj options seen ks = Returns (h', seen') \<Longrightarrow>
         regions h' P S \<and> keeps P h h' \<and> seen_out P seen'"
proof (induction ks arbitrary: h seen)
  case Nil
  then show ?case by simp
next
  case (Cons key ks)
  show ?case
  proof (cases "getInternalProto (kind (deref h a)) = TArray \<and> key = Name ''length''")
    case True
    with Cons show ?thesis by simp
  next
    case nl: False
    show ?thesis
    proof (cases "is_accessor (own_prop (deref h a) key)")
      case True
      then obtain p where p: "own_prop (deref h a) key = Some p" and acc: "\<exists>g s e. p = Accessor g s e"
        by (auto simp: is_accessor_def split: option.splits property.splits)
      have "a \<notin> S"
      proof
        assume "a \<in> S"
        with Cons.prems(1) have "plain_obj S (deref h a)" by (simp add: regions_def plain_closed_deref)
        from own_prop_plain [OF this p] acc show False by auto
      qed
      with a have aP: "a \<notin> P" by simp
      from Cons.prems(1) have "separated h P" by (simp add: regions_def)
      from own_prop_out [OF separated_deref [OF this aP] p] have po: "prop_out P p" .
      let ?h1 = "h[newObj := define_own (deref h newObj) key p]"
      from regions_define [OF Cons.prems(1) nP po] have r1: "regions ?h1 P S" and k1: "keeps P h ?h1"
        by blast+
      from True nl Cons.prems(3) p have
        r: "clone_keys cl ?h1 a newObj options seen ks = Returns (h', seen')"
        by (auto split: if_splits)
      from Cons.IH [OF r1 Cons.prems(2) r] k1 show ?thesis by (blast intro: keeps_trans)
    next
      case False
      let ?e = "descriptor_enumerable (own_prop (deref h a) key)"
      from False nl Cons.prems(3) obtain h1 s1 v1 where
        c: "cl h (obj_get h a key) options seen = Returns (h1, s1, v1)" and
        r: "clone_keys cl (h1[newObj := define_own (deref h1 newObj) key (Data v1 ?e)])
              a newObj options s1 ks = Returns (h', seen')"
        by (auto elim!: then_do_ReturnsE split: if_splits)
      from cloner_call [OF fr sp Cons.prems(1) obj_get_ok [OF Cons.prems(1) a] Cons.prems(2) c]
      have r1: "regions h1 P S" and k1: "keeps P h h1" and o1: "out_of P v1" and s1: "seen_out P s1"
        by blast+
      let ?h2 = "h1[newObj := define_own (deref h1 newObj) key (Data v1 ?e)]"
      from o1 have "prop_out P (Data v1 ?e)" by (simp add: prop_out_def)
      from regions_define [OF r1 nP this] have r2: "regions ?h2 P S" and k2: "keeps P h1 ?h2"
        by blast+
      from Cons.IH [OF r2 s1 r] k1 k2 show ?thesis by (blast intro: keeps_trans)
    qed
  qed
qed

lemma regions_set_add:
  assumes "regions h P S" "b \<notin> P" "out_of P v"
  shows "regions (set_add h b v) P S \<and> keeps P h (set_add h b v)"
proof -
  from assms(1) have "separated h P" by (simp add: regions_def)
  from separated_set_add [OF this assms(3)] keeps_set_add [OF assms(2)] regions_step [OF assms(1)]
  show ?thesis by blast
qed

lemma regions_map_put:
  assumes "regions h P S" "b \<notin> P" "out_of P v"
  shows "regions (map_put h b k v) P S \<and> keeps P h (map_put h b k v)"
proof -
  from assms(1) have "separated h P" by (simp add: regions_def)
  from separated_map_put [OF this assms(3)] keeps_map_put [OF assms(2)] regions_step [OF assms(1)]
  show ?thesis by blast
qed

lemma clone_set_sep:
  assumes fr: "cloner_frame cl options" and sp: "cloner_sep cl options P S" and nP: "newObj \<notin> P"
  shows "regions h P S \<Longrightarrow> seen_out P seen \<Longrightarrow> list_all (value_ok P S) vs \<Longrightarrow>
         clone_set cl h newObj options seen vs = Returns (h', seen') \<Longrightarrow>
         regions h' P S \<and> keeps P h h' \<and> seen_out P seen'"
proof (induction vs arbitrary: h seen)
  case Nil
  then show ?case by simp
next
  case (Cons v vs)
  from Cons.prems(4) obtain h1 s1 v1 where
    c: "cl h v options seen = Returns (h1, s1, v1)" and
    r: "clone_set cl (set_add h1 newObj v1) newObj options s1 vs = Returns (h', seen')"
    by (auto elim!: then_do_ReturnsE)
  from Cons.prems(3) have v: "value_ok P S v" and vs: "list_all (value_ok P S) vs" by simp_all
  from cloner_call [OF fr sp Cons.prems(1) v Cons.prems(2) c]
  have r1: "regions h1 P S" and k1: "keeps P h h1" and o1: "out_of P v1" and s1: "seen_out P s1"
    by blast+
  from regions_set_add [OF r1 nP o1]
  have r2: "regions (set_add h1 newObj v1) P S" and k2: "keeps P h1 (set_add h1 newObj v1)" by blast+
  from Cons.IH [OF r2 s1 vs r] k1 k2 show ?case by (blast intro: keeps_trans)
qed

lemma clone_map_sep:
  assumes fr: "cloner_frame cl options" and sp: "cloner_sep cl options P S" and nP: "newObj \<notin> P"
  shows "regions h P S \<Longrightarrow> seen_out P seen \<Longrightarrow> list_all (\<lambda>e. value_ok P S (snd e)) es \<Longrightarrow>
         clone_map cl h newObj options seen es = Returns (h', seen') \<Longrightarrow>
         regions h' P S \<and> keeps P h h' \<and> seen_out P seen'"
proof (induction es arbitrary: h seen)
  case Nil
  then show ?case by simp
next
  case (Cons e es)
  obtain x v where e: "e = (x, v)" by (cases e)
  from Cons.prems(4) e obtain h1 s1 v1 where
    c: "cl h v options seen = Returns (h1, s1, v1)" and
    r: "clone_map cl (map_put h1 newObj x v1) newObj options s1 es = Returns (h', seen')"
    by (auto elim!: then_do_ReturnsE)
  from Cons.prems(3) e have v: "value_ok P S v" and es: "list_all (\<lambda>e. value_ok P S (snd e)) es"
    by simp_all
  from cloner_call [OF fr sp Cons.prems(1) v Cons.prems(2) c]
  have r1: "regions h1 P S" and k1: "keeps P h h1" and o1: "out_of P v1" and s1: "seen_out P s1"
    by blast+
  from regions_map_put [OF r1 nP o1]
  have r2: "regions (map_put h1 newObj x v1) P S" and k2: "keeps P h1 (map_put h1 newObj x v1)" by blast+
  from Cons.IH [OF r2 s1 es r] k1 k2 show ?case by (blast intro: keeps_trans)
qed

lemma kind_values_ok:
  assumes "regions h P S" "a \<in> S \<or> a \<notin> P"
  shows "list_all (value_ok P S) (set_values (kind (deref h a)))"
    and "list_all (\<lambda>e. value_ok P S (snd e)) (map_entries (kind (deref h a)))"
proof -
  have "kind_in S (kind (deref h a)) \<or> kind_out P (kind (deref h a))"
  proof (cases "a \<in> S")
    case True
    with assms(1) have "plain_obj S (deref h a)" by (simp add: regions_def plain_closed_deref)
    then show ?thesis by (simp add: plain_obj_def)
  next
    case False
    with assms have "refs_out P (deref h a)" by (simp add: regions_def separated_deref)
    then show ?thesis by (simp add: refs_out_def)
  qed
  then show "list_all (value_ok P S) (set_values (kind (deref h a)))"
    and "list_all (\<lambda>e. value_ok P S (snd e)) (map_entries (kind (deref h a)))"
    by (cases "kind (deref h a)";
        auto simp: kind_in_def kind_out_def list_all_iff intro: value_ok_in value_ok_out)+
qed

lemma seen_out_set: "seen_out P s \<Longrightarrow> b \<notin> P \<Longrightarrow> seen_out P (seen_set s a b)"
  by (cases s) (auto simp: seen_out_def seen_or_new_def)

lemma seen_out_new: "seen_out P s \<Longrightarrow> seen_out P (Some (seen_or_new s))"
  by (simp add: seen_out_def seen_or_new_def)

lemma seen_out_lookup: "seen_out P s \<Longrightarrow> map_of (seen_or_new s) a = Some t \<Longrightarrow> t \<notin> P"
  by (auto simp: seen_out_def dest!: map_of_SomeD)

lemma regions_set_length:
  assumes "regions h P S" "b \<notin> P"
  shows "regions (h[b := set_length (deref h b) n]) P S \<and> keeps P h (h[b := set_length (deref h b) n])"
proof -
  from assms(1) have s: "separated h P" by (simp add: regions_def)
  have "separated (h[b := set_length (deref h b) n]) P"
    using s assms(2) by (auto intro!: separated_update refs_out_set_length separated_deref)
  with keeps_update [OF assms(2)] regions_step [OF assms(1)] show ?thesis by blast
qed

lemma clone_fill_sep:
  assumes fr: "cloner_frame cl options" and sp: "cloner_sep cl options P S"
    and nP: "newObj \<notin> P" and a: "a \<in> S \<or> a \<notin> P"
    and r0: "regions h P S" and s0: "seen_out P seen"
    and res: "clone_fill cl h a newObj options seen = Returns (h', seen', v')"
  shows "regions h' P S \<and> keeps P h h' \<and> seen_out P seen' \<and> out_of P v'"
proof -
  from res obtain h2 s2 h3 s3 h4 where
    x: "clone_set cl h newObj options (seen_set seen a newObj) (set_values (kind (deref h a))) = Returns (h2, s2)" and
    y: "clone_map cl h2 newObj options s2 (map_entries (kind (deref h2 a))) = Returns (h3, s3)" and
    z: "clone_keys cl h3 a newObj options s3 (keys (deref h3 a) options) = Returns (h4, seen')" and
    d: "h' = h4 \<or> h' = h4[newObj := set_length (deref h4 newObj) (array_length (deref h4 a))]" and
    v: "v' = Ref newObj"
    unfolding clone_fill_def by (auto elim!: then_do_ReturnsE split: if_splits)
  from clone_set_sep [OF fr sp nP r0 seen_out_set [OF s0 nP] kind_values_ok(1) [OF r0 a] x]
  have r2: "regions h2 P S" and k2: "keeps P h h2" and s2: "seen_out P s2" by blast+
  from clone_map_sep [OF fr sp nP r2 s2 kind_values_ok(2) [OF r2 a] y]
  have r3: "regions h3 P S" and k3: "keeps P h2 h3" and s3: "seen_out P s3" by blast+
  from clone_keys_sep [OF fr sp nP a r3 s3 z]
  have r4: "regions h4 P S" and k4: "keeps P h3 h4" and s4: "seen_out P seen'" by blast+
  from d regions_set_length [OF r4 nP] r4 have "regions h' P S \<and> keeps P h4 h'" by auto
  with k2 k3 k4 s4 v nP show ?thesis by (auto intro: keeps_trans)
qed

lemma kind_out_blank: "kind_out P (blank k)"
  by (cases k) (simp_all add: kind_out_def)

lemma new_target_shape:
  assumes "new_target h a options = Fill ob \<or> new_target h a options = Copied ob"
  shows "props ob = [] \<and> kind_out P (kind ob) \<and>
         (proto ob = proto (deref h a) \<or> (\<exists>t. proto ob = PBuiltin t))"
proof (cases "kind (deref h a)")
  case KGeneric
  with assms show ?thesis
    by (auto simp: new_target_def Let_def kind_out_def needsProtoHack_def split: if_splits)
next
  case (KArray n)
  with assms show ?thesis by (auto simp: new_target_def Let_def kind_out_def)
next
  case (KBuffer bs)
  with assms show ?thesis by (auto simp: new_target_def Let_def kind_out_def)
next
  case (KDate t)
  with assms show ?thesis by (auto simp: new_target_def Let_def kind_out_def)
next
  case (KRegex x y)
  with assms show ?thesis by (auto simp: new_target_def Let_def kind_out_def)
next
  case (KSet vs)
  with assms show ?thesis
    by (auto simp: new_target_def Let_def kind_out_def needsProtoHack_def split: if_splits)
next
  case (KMap es)
  with assms show ?thesis
    by (auto simp: new_target_def Let_def kind_out_def needsProtoHack_def split: if_splits)
next
  case KWeakSet
  with assms show ?thesis
    by (auto simp: new_target_def Let_def kind_out_def needsProtoHack_def split: if_splits)
next
  case KWeakMap
  with assms show ?thesis
    by (auto simp: new_target_def Let_def kind_out_def needsProtoHack_def split: if_splits)
qed

lemma new_target_Same:
  "new_target h a options = Same \<Longrightarrow>
   truthy (proto_get h (proto (deref h a)) (Name ''isImmutable''))"
  by (cases "kind (deref h a)") (auto simp: new_target_def Let_def split: if_splits)

lemma new_target_plain:
  assumes "plain_obj S (deref h a)"
  shows "new_target h a options \<noteq> Same"
    and "new_target h a options = Fill ob \<or> new_target h a options = Copied ob \<Longrightarrow> refs_out P ob"
proof -
  have np: "proto_get h (proto (deref h a)) k = Undefined" for k
    using assms by (auto simp: plain_obj_def proto_get_def split: protoref.splits)
  show "new_target h a options \<noteq> Same"
    using new_target_Same [of h a options] np by auto
  assume "new_target h a options = Fill ob \<or> new_target h a options = Copied ob"
  from new_target_shape [OF this, of P] assms show "refs_out P ob"
    by (auto simp: refs_out_def plain_obj_def split: protoref.splits)
qed

lemma new_target_out:
  assumes "refs_out P (deref h a)"
    and "new_target h a options = Fill ob \<or> new_target h a options = Copied ob"
  shows "refs_out P ob"
  using new_target_shape [OF assms(2), of P] assms(1)
  by (auto simp: refs_out_def split: protoref.splits)

lemma clone_object_sep:
  assumes fr: "cloner_frame cl options" and sp: "cloner_sep cl options P S"
    and a: "a \<in> S \<or> a \<notin> P"
    and r0: "regions h P S" and s0: "seen_out P seen"
    and res: "clone_object cl h (Ref a) options seen = Returns (h', seen', v')"
  shows "separated h' P \<and> out_of P v' \<and> seen_out P seen'"
proof -
  have sep: "separated h P" using r0 by (simp add: regions_def)
  have fresh: "length h \<notin> P" using regions_bound [OF r0, of "length h"] by auto
  have refs: "refs_out P ob"
    if "new_target h a options = Fill ob \<or> new_target h a options = Copied ob" for ob
  proof (cases "a \<in> S")
    case True
    with r0 have "plain_obj S (deref h a)" by (simp add: regions_def plain_closed_deref)
    from new_target_plain(2) [OF this that] show ?thesis .
  next
    case False
    with a sep have "refs_out P (deref h a)" by (simp add: separated_deref)
    from new_target_out [OF this that] show ?thesis .
  qed
  show ?thesis
  proof (cases "new_target h a options")
    case (Copied ob)
    with res have "h' = fst (alloc h ob)" "seen' = seen" "v' = Ref (length h)"
      by (simp_all add: clone_object_def alloc_def)
    with separated_alloc [OF sep refs] Copied s0 fresh show ?thesis by simp
  next
    case Same
    have aP: "a \<notin> P"
    proof (cases "a \<in> S")
      case True
      with r0 have "plain_obj S (deref h a)" by (simp add: regions_def plain_closed_deref)
      from new_target_plain(1) [OF this] Same show ?thesis by simp
    next
      case False
      with a show ?thesis by simp
    qed
    from res Same have "h' = h" "seen' = seen" "v' = Ref a" by (simp_all add: clone_object_def)
    with sep s0 aP show ?thesis by simp
  next
    case (Fill ob)
    let ?h1 = "fst (alloc h ob)"
    from res Fill have
      f: "clone_fill cl ?h1 a (length h) options seen = Returns (h', seen', v')"
      by (simp add: clone_object_def alloc_def)
    have k1: "keeps P h ?h1"
      by (rule keeps_unchanged [OF unchanged_alloc [of "length h"]]) (rule ballI, rule regions_bound [OF r0])
    from separated_alloc [OF sep refs] Fill have "separated ?h1 P" by simp
    from regions_step [OF r0 k1 this] have r1: "regions ?h1 P S" .
    from clone_fill_sep [OF fr sp fresh a r1 s0 f] show ?thesis by (simp add: regions_def)
  next
    case (Fails e)
    with res show ?thesis by (simp add: clone_object_def)
  qed
qed

lemma clone_sep:
  "shallow options = ShFalsy \<Longrightarrow> cloner_sep (clone n) options P S"
proof (induction n)
  case 0
  then show ?case by (simp add: cloner_sep_def)
next
  case (Suc n)
  have fr: "cloner_frame (clone n) options" using Suc.prems by (simp add: clone_frame)
  show ?case
    unfolding cloner_sep_def
  proof (intro allI impI, elim conjE)
    fix h v s h' s' v'
    assume r0: "regions h P S" and v: "value_ok P S v" and s0: "seen_out P s"
      and res: "clone (Suc n) h v options s = Returns (h', s', v')"
    have sep: "separated h P" using r0 by (simp add: regions_def)
    show "separated h' P \<and> out_of P v' \<and> seen_out P s'"
    proof (cases "typeof v \<noteq> Tobject \<or> v = Null")
      case True
      with res have "h' = h" "s' = s" "v' = v" by auto
      moreover from True have "out_of P v" by (cases v) auto
      ultimately show ?thesis using sep s0 by simp
    next
      case False
      then obtain a where a: "v = Ref a" by (cases v) auto
      with v have aok: "a \<in> S \<or> a \<notin> P" by simp
      show ?thesis
      proof (cases "map_of (seen_or_new s) a")
        case None
        with a Suc.prems res have
          c: "clone_object (clone n) h (Ref a) options (Some (seen_or_new s)) = Returns (h', s', v')"
          by simp
        from clone_object_sep [OF fr Suc.IH [OF Suc.prems] aok r0 seen_out_new [OF s0] c]
        show ?thesis .
      next
        case (Some t)
        with a Suc.prems res have "h' = h" "s' = Some (seen_or_new s)" "v' = Ref t" by auto
        with sep seen_out_new [OF s0] seen_out_lookup [OF s0 Some] show ?thesis by simp
      qed
    qed
  qed
qed

subsection \<open>\<open>merge\<close> keeps the heap separated and changes no protected object\<close>

lemma seen_out_None [simp]: "seen_out P None"
  by (simp add: seen_out_def seen_or_new_def)

lemma symbols_only_shallow [simp]: "shallow (symbols_only options) = ShFalsy"
  by (simp add: symbols_only_def no_options_def)

lemma merger_sepD:
  "merger_sep mg P S \<Longrightarrow> regions h P S \<Longrightarrow> out_of P target \<Longrightarrow> value_ok P S source \<Longrightarrow>
   mg h target source options = Returns (h', v) \<Longrightarrow> regions h' P S \<and> keeps P h h'"
  unfolding merger_sep_def by (blast intro: regions_step)

lemma regions_obj_set:
  assumes "regions h P S" "t \<notin> P" "out_of P x" "obj_set h t k x = Returns h'"
  shows "regions h' P S \<and> keeps P h h'"
proof -
  from assms(1) have "separated h P" by (simp add: regions_def)
  from separated_obj_set [OF this assms(3,4)] keeps_obj_set [OF assms(2,4)] regions_step [OF assms(1)]
  show ?thesis by blast
qed

lemma regions_push:
  assumes "regions h P S" "t \<notin> P" "out_of P x"
  shows "regions (push h t x) P S \<and> keeps P h (push h t x)"
proof -
  from assms(1) have "separated h P" by (simp add: regions_def)
  from separated_push [OF this assms(3)] keeps_push [OF assms(2)] regions_step [OF assms(1)]
  show ?thesis by blast
qed

lemma not_object_out: "\<not> (truthy v \<and> typeof v = Tobject) \<Longrightarrow> out_of P v"
  by (cases v) auto

lemma merge_key_sep:
  assumes fr: "cloner_frame cl (symbols_only options)"
    and sp: "cloner_sep cl (symbols_only options) P S"
    and ms: "merger_sep mg P S"
    and r0: "regions h P S" and t: "t \<notin> P" and s: "s \<in> S \<or> s \<notin> P"
    and res: "merge_key cl mg h (Ref t) (Ref s) options key = Returns h'"
  shows "regions h' P S \<and> keeps P h h'"
proof (cases "key = Name ''__proto__'' \<or> \<not> propertyIsEnumerable (deref h (addr (Ref s))) key")
  case True
  with res have "h' = h" by (simp add: merge_key_def)
  with r0 show ?thesis by simp
next
  case visit: False
  let ?sv = "obj_get h s key"
  let ?tv = "obj_get h t key"
  have vok: "value_ok P S ?sv" using r0 s by (rule obj_get_ok)
  have sep: "separated h P" using r0 by (simp add: regions_def)
  show ?thesis
  proof (cases "truthy ?sv \<and> typeof ?sv = Tobject")
    case obj: True
    show ?thesis
    proof (cases "\<not> truthy ?tv \<or> typeof ?tv \<noteq> Tobject \<or>
                  isArray h ?tv \<noteq> isArray h ?sv \<or> special_kind h ?sv")
      case True
      with visit obj res obtain h1 s1 v1 where
        c: "cl h ?sv (symbols_only options) None = Returns (h1, s1, v1)" and
        w: "obj_set h1 t key v1 = Returns h'"
        by (auto simp: merge_key_def Let_def elim!: then_do_ReturnsE)
      from cloner_call [OF fr sp r0 vok seen_out_None c]
      have r1: "regions h1 P S" and k1: "keeps P h h1" and o1: "out_of P v1" by blast+
      from regions_obj_set [OF r1 t o1 w] k1 show ?thesis by (blast intro: keeps_trans)
    next
      case False
      with visit obj res obtain t' where
        m: "mg h ?tv ?sv options = Returns (h', t')"
        by (auto simp: merge_key_def Let_def elim!: then_do_ReturnsE)
      from merger_sepD [OF ms r0 obj_get_out [OF sep t] vok m] show ?thesis .
    qed
  next
    case prim: False
    show ?thesis
    proof (cases "(?sv \<noteq> Null \<and> ?sv \<noteq> Undefined) \<or> truthy (opt (nullOverride options))")
      case True
      with visit prim res have w: "obj_set h t key ?sv = Returns h'"
        by (auto simp: merge_key_def Let_def split: if_splits)
      from regions_obj_set [OF r0 t not_object_out [OF prim] w] show ?thesis .
    next
      case False
      with visit prim res have "h' = h" by (auto simp: merge_key_def Let_def split: if_splits)
      with r0 show ?thesis by simp
    qed
  qed
qed

lemma merge_keys_sep:
  assumes fr: "cloner_frame cl (symbols_only options)"
    and sp: "cloner_sep cl (symbols_only options) P S"
    and ms: "merger_sep mg P S" and t: "t \<notin> P" and s: "s \<in> S \<or> s \<notin> P"
  shows "regions h P S \<Longrightarrow> merge_keys cl mg h (Ref t) (Ref s) options ks = Returns h' \<Longrightarrow>
         regions h' P S \<and> keeps P h h'"
proof (induction ks arbitrary: h)
  case Nil
  then show ?case by simp
next
  case (Cons key ks)
  from Cons.prems(2) obtain h1 where
    a: "merge_key cl mg h (Ref t) (Ref s) options key = Returns h1" and
    b: "merge_keys cl mg h1 (Ref t) (Ref s) options ks = Returns h'"
    by (auto elim!: then_do_ReturnsE)
  from merge_key_sep [OF fr sp ms Cons.prems(1) t s a]
  have r1: "regions h1 P S" and k1: "keeps P h h1" by blast+
  from Cons.IH [OF r1 b] k1 show ?case by (blast intro: keeps_trans)
qed

lemma merge_push_sep:
  assumes fr: "cloner_frame cl (symbols_only options)"
    and sp: "cloner_sep cl (symbols_only options) P S" and t: "t \<notin> P" and s: "s \<in> S \<or> s \<notin> P"
  shows "regions h P S \<Longrightarrow> merge_push b cl h (Ref t) (Ref s) options i = Returns h' \<Longrightarrow>
         regions h' P S \<and> keeps P h h'"
proof (induction b arbitrary: h i)
  case 0
  then show ?case by simp
next
  case (Suc b)
  show ?case
  proof (cases "i < array_length (deref h s)")
    case False
    with Suc.prems have "h' = h" by simp
    with Suc.prems(1) show ?thesis by simp
  next
    case True
    with Suc.prems(2) obtain h1 s1 v1 where
      c: "cl h (obj_get h s (Idx i)) (symbols_only options) None = Returns (h1, s1, v1)" and
      r: "merge_push b cl (push h1 t v1) (Ref t) (Ref s) options (Suc i) = Returns h'"
      by (auto simp: array_push_def elim!: then_do_ReturnsE split: if_splits)
    have vok: "value_ok P S (obj_get h s (Idx i))" using Suc.prems(1) s by (rule obj_get_ok)
    from cloner_call [OF fr sp Suc.prems(1) vok seen_out_None c]
    have r1: "regions h1 P S" and k1: "keeps P h h1" and o1: "out_of P v1" by blast+
    from regions_push [OF r1 t o1]
    have r2: "regions (push h1 t v1) P S" and k2: "keeps P h1 (push h1 t v1)" by blast+
    from Suc.IH [OF r2 r] k1 k2 show ?thesis by (blast intro: keeps_trans)
  qed
qed

lemma merge_sep: "merger_sep (merge n) P S"
proof (induction n)
  case 0
  then show ?case by (simp add: merger_sep_def)
next
  case (Suc n)
  show ?case
    unfolding merger_sep_def
  proof (intro allI impI, elim conjE)
    fix h target source options h' v
    assume r0: "regions h P S" and to: "out_of P target" and si: "value_ok P S source"
      and res: "merge (Suc n) h target source options = Returns (h', v)"
    let ?o = "merge_options options"
    have fr: "cloner_frame (clone n) (symbols_only ?o)" by (simp add: clone_frame)
    have sp: "cloner_sep (clone n) (symbols_only ?o) P S" by (simp add: clone_sep)
    from res obtain t where t: "target = Ref t"
      by (cases target) (auto split: if_splits)
    with to have tP: "t \<notin> P" by simp
    have "regions h' P S \<and> keeps P h h'"
    proof (cases "truthy source")
      case False
      with res t have "h' = h" by (auto split: if_splits)
      with r0 show ?thesis by simp
    next
      case True
      with res t obtain s where s: "source = Ref s"
        by (cases source) (auto split: if_splits)
      with si have sS: "s \<in> S \<or> s \<notin> P" by simp
      show ?thesis
      proof (cases "isArray h source")
        case False
        with res t s obtain hk where
          "merge_keys (clone n) (merge n) h (Ref t) (Ref s) ?o (keys (deref h s) ?o) = Returns hk"
          "h' = hk"
          by (auto elim!: then_do_ReturnsE simp del: merge_push.simps)
        with merge_keys_sep [OF fr sp Suc.IH tP sS r0] show ?thesis by blast
      next
        case True
        with res t s obtain h1 h2 where
          tr: "h1 = h \<or> obj_set h t (Name ''length'') (Num 0) = Returns h1" and
          lp: "merge_push (Suc n) (clone n) h1 (Ref t) (Ref s) ?o 0 = Returns h2" and
          e: "h' = h2"
          by (auto elim!: then_do_ReturnsE split: if_splits simp del: merge_push.simps)
        from tr have "regions h1 P S \<and> keeps P h h1"
        proof
          assume "h1 = h"
          with r0 show ?thesis by simp
        next
          assume "obj_set h t (Name ''length'') (Num 0) = Returns h1"
          from regions_obj_set [OF r0 tP _ this] show ?thesis by simp
        qed
        then have r1: "regions h1 P S" and k1: "keeps P h h1" by blast+
        from merge_push_sep [OF fr sp tP sS r1 lp] k1 e show ?thesis by (blast intro: keeps_trans)
      qed
    qed
    then show "separated h' P \<and> keeps P h h'" by (simp add: regions_def)
  qed
qed


section \<open>\<open>contain\<close> with \<open>once\<close> and \<open>only\<close>\<close>






lemma length_increment [simp]: "length (increment ms k) = length ms"
  by (simp add: increment_def)










lemma length_elements [simp]: "length (elements h v) = array_length (deref h (addr v))"
  by (simp add: elements_def)





end
